theory Spec2Isabelle
  imports Complex_Main
begin

section \<open>Data model of \<open>DataGeneration.py\<close>\<close>

text \<open>
  The class \<open>training_data\<close> of \<open>src/DataGeneration.py\<close> is embedded function by function.
  Python floats and numpy \<open>float64\<close>/\<open>complex128\<close> values are modelled by the real and
  complex numbers (no rounding, no overflow), except for the loop condition of the sampler,
  which is modelled a second time with the float64 rounding of each operation; a float operation that divides by zero and
  therefore yields \<open>nan\<close> or \<open>inf\<close> in numpy is modelled by \<open>None\<close> in a \<open>real option\<close>
  slot, and a Python exception by \<open>Inl\<close> of a sum.
\<close>

datatype error =
    ValueError string
  | IndexError
  | ZeroDivisionError

type_synonym cmatrix = "complex list list"

text \<open>The fields that \<open>__init__\<close> stores, except the random generator, which is threaded
  through the sampler as explicit state.\<close>

record training_data =
  point_group :: string
  N_t :: int
  J :: real
  L :: real
  S :: real
  B_directions :: "real list list"

section \<open>\<open>ham_cr\<close>: dispatch to the library of crystal-field Hamiltonians\<close>

text \<open>
  The module \<open>ham_cr\<close> imported by the source is an external library. It is a parameter
  \<open>lib\<close> of the model: the name of the library function and its arguments give the matrix.
  The model returns, beside the outcome, the list of library calls that were made.
\<close>

type_synonym ham_lib = "string \<Rightarrow> real list \<Rightarrow> cmatrix"
type_synonym lib_call = "string \<times> real list"

text \<open>The \<open>if/elif\<close> chain on \<open>self.J\<close>, in the order of the source. When no branch matches,
  the Python method runs off its end and returns \<open>None\<close>.\<close>

definition ham_cr_J :: "ham_lib \<Rightarrow> string \<Rightarrow> real \<Rightarrow> real list \<Rightarrow> cmatrix option \<times> lib_call list" where
  "ham_cr_J lib pg j args =
     (if j = 4 then (Some (lib (''ham_cr_PG_'' @ pg @ ''_J_4'') args), [(''ham_cr_PG_'' @ pg @ ''_J_4'', args)])
      else if j = 7.5 then (Some (lib (''ham_cr_PG_'' @ pg @ ''_J_7_5'') args), [(''ham_cr_PG_'' @ pg @ ''_J_7_5'', args)])
      else if j = 3.5 then (Some (lib (''ham_cr_PG_'' @ pg @ ''_J_3_5'') args), [(''ham_cr_PG_'' @ pg @ ''_J_3_5'', args)])
      else if j = 6 then (Some (lib (''ham_cr_PG_'' @ pg @ ''_J_6'') args), [(''ham_cr_PG_'' @ pg @ ''_J_6'', args)])
      else if j = 8 then (Some (lib (''ham_cr_PG_'' @ pg @ ''_J_8'') args), [(''ham_cr_PG_'' @ pg @ ''_J_8'', args)])
      else if j = 4.5 then (Some (lib (''ham_cr_PG_'' @ pg @ ''_J_4_5'') args), [(''ham_cr_PG_'' @ pg @ ''_J_4_5'', args)])
      else (None, []))"

definition ham_cr :: "ham_lib \<Rightarrow> training_data \<Rightarrow> real list \<Rightarrow> (error + cmatrix option) \<times> lib_call list" where
  "ham_cr lib td stevens_params =
     (if point_group td = ''Oh'' then
        (if length stevens_params \<noteq> 2
         then (Inl (ValueError ''Number of Stevens parameters should be 2 for point group Oh''), [])
         else (case ham_cr_J lib ''Oh'' (J td) [stevens_params ! 0, stevens_params ! 1] of (r, calls) \<Rightarrow> (Inr r, calls)))
      else if point_group td = ''C4v'' then
        (if length stevens_params \<noteq> 6
         then (Inl (ValueError ''Number of Stevens parameters should be 5+1=6 for point group C4v''), [])
         else (case ham_cr_J lib ''C4v'' (J td) [stevens_params ! 0, stevens_params ! 1, stevens_params ! 2, stevens_params ! 3, stevens_params ! 4, stevens_params ! 5] of (r, calls) \<Rightarrow> (Inr r, calls)))
      else if point_group td = ''D3h'' then
        (if length stevens_params \<noteq> 5
         then (Inl (ValueError ''Number of Stevens parameters should be 4+1=5 for point group D3h''), [])
         else (case ham_cr_J lib ''D3h'' (J td) [stevens_params ! 0, stevens_params ! 1, stevens_params ! 2, stevens_params ! 3, stevens_params ! 4] of (r, calls) \<Rightarrow> (Inr r, calls)))
      else (Inl (ValueError ''This point group and/or value of J is not implemented.''), []))"

text \<open>The parameter count the specification expects for each supported point group.\<close>

definition expected_count :: "string \<Rightarrow> nat" where
  "expected_count pg = (if pg = ''Oh'' then 2 else if pg = ''C4v'' then 6 else 5)"

section \<open>\<open>generate_random_stevens\<close>: rejection sampling of Stevens parameters\<close>

text \<open>
  The generator \<open>self.rg\<close> is state: a fixed sequence of draws (determined by the seed)
  and the number of draws consumed so far. \<open>self.rg.random()\<close> returns the next draw and
  advances the position.
\<close>

record rng =
  draws :: "nat \<Rightarrow> real"
  pos :: nat

definition random :: "rng \<Rightarrow> real \<times> rng" where
  "random rg = (draws rg (pos rg), rg\<lparr>pos := Suc (pos rg)\<rparr>)"

text \<open>\<open>range[i][0]\<close> and \<open>range[i][1]\<close>: an \<open>IndexError\<close> when the table has no row \<open>i\<close> or the
  row has fewer than two entries.\<close>

definition range_row :: "real list list \<Rightarrow> nat \<Rightarrow> error + real \<times> real" where
  "range_row ranges i =
     (if i < length ranges \<and> 2 \<le> length (ranges ! i)
      then Inr (ranges ! i ! 0, ranges ! i ! 1) else Inl IndexError)"

text \<open>\<open>range[i][0] + (range[i][1] - range[i][0])*self.rg.random()\<close>: Python evaluates the
  three subscripts before the call of \<open>random\<close>, so an \<open>IndexError\<close> consumes no draw.\<close>

definition draw_uniform :: "real list list \<Rightarrow> nat \<Rightarrow> rng \<Rightarrow> (error + real) \<times> rng" where
  "draw_uniform ranges i rg =
     (case range_row ranges i of
        Inl e \<Rightarrow> (Inl e, rg)
      | Inr (lo, hi) \<Rightarrow> (case random rg of (u, rg') \<Rightarrow> (Inr (lo + (hi - lo) * u), rg')))"

text \<open>The assignments \<open>stevens_params[i] = ...\<close> of one pass through a loop body, for the
  indices given, in order; the entry at index 0 is multiplied by \<open>W_sign\<close>.\<close>

fun assign_draws :: "real list list \<Rightarrow> real \<Rightarrow> nat list \<Rightarrow> real list \<Rightarrow> rng \<Rightarrow> (error + real list) \<times> rng" where
  "assign_draws ranges W_sign [] ps rg = (Inr ps, rg)"
| "assign_draws ranges W_sign (i # idxs) ps rg =
     (case draw_uniform ranges i rg of
        (Inl e, rg') \<Rightarrow> (Inl e, rg')
      | (Inr x, rg') \<Rightarrow> assign_draws ranges W_sign idxs (ps[i := (if i = 0 then x * W_sign else x)]) rg')"

text \<open>The loop condition
  \<open>np.sum(np.abs(stevens_params)) - np.abs(stevens_params[0]) - np.abs(stevens_params[-1]) > 1\<close>,
  evaluated over the reals. The source evaluates it in float64; the two differ when the
  leading entry is large, see \<open>rejected_float64\<close> below. What this section proves about the
  loop (which draws it consumes, which pass it returns) does not depend on the test.\<close>

definition rejected :: "real list \<Rightarrow> bool" where
  "rejected ps \<longleftrightarrow> sum_list (map abs ps) - \<bar>ps ! 0\<bar> - \<bar>last ps\<bar> > 1"

text \<open>The \<open>while\<close> loop. It has no iteration bound in the source, so it is a partial
  function: \<open>None\<close> is the run that never leaves the loop. \<open>n\<close> is the number of entries
  the body assigns (5 for C4v, 4 for D3h).\<close>

partial_function (option) stevens_loop ::
  "real list list \<Rightarrow> real \<Rightarrow> nat \<Rightarrow> real list \<Rightarrow> rng \<Rightarrow> ((error + real list) \<times> rng) option" where
  "stevens_loop ranges W_sign n ps rg =
     (if rejected ps then
        (case assign_draws ranges W_sign [0..<n] ps rg of
           (Inl e, rg') \<Rightarrow> Some (Inl e, rg')
         | (Inr ps', rg') \<Rightarrow> stevens_loop ranges W_sign n ps' rg')
      else Some (Inr ps, rg))"

definition generate_random_stevens ::
  "training_data \<Rightarrow> real list list \<Rightarrow> real \<Rightarrow> rng \<Rightarrow> ((error + real list) \<times> rng) option" where
  "generate_random_stevens td ranges W_sign rg =
     (if point_group td = ''Oh'' then
        (case draw_uniform ranges 0 rg of
           (Inl e, rg1) \<Rightarrow> Some (Inl e, rg1)
         | (Inr u0, rg1) \<Rightarrow>
             (case draw_uniform ranges 1 rg1 of
                (Inl e, rg2) \<Rightarrow> Some (Inl e, rg2)
              | (Inr x1, rg2) \<Rightarrow> Some (Inr [u0 * W_sign, x1], rg2)))
      else if point_group td = ''C4v'' then
        (case stevens_loop ranges W_sign 5 [1, 1, 1, 1, 1, 0] rg of
           None \<Rightarrow> None
         | Some (Inl e, rg1) \<Rightarrow> Some (Inl e, rg1)
         | Some (Inr ps, rg1) \<Rightarrow> (case random rg1 of (u, rg2) \<Rightarrow> Some (Inr (ps[5 := 2 * u - 1]), rg2)))
      else if point_group td = ''D3h'' then
        (case stevens_loop ranges W_sign 4 [1, 1, 1, 1, 0] rg of
           None \<Rightarrow> None
         | Some (Inl e, rg1) \<Rightarrow> Some (Inl e, rg1)
         | Some (Inr ps, rg1) \<Rightarrow> (case random rg1 of (u, rg2) \<Rightarrow> Some (Inr (ps[4 := 2 * u - 1]), rg2)))
      else Some (Inl (ValueError ''This point group is not implemented.''), rg))"

text \<open>The value that \<open>range[i][0] + (range[i][1] - range[i][0])*u\<close> takes for a draw \<open>u\<close>, and
  the parameter vector that pass \<open>k\<close> of the loop body writes when the loop starts with the
  generator \<open>rg\<close>: entries \<open>0..n-1\<close> come from the draws \<open>pos rg + n*k + i\<close>, the last entry
  \<open>z\<close> is not touched by the loop. These two definitions describe the loop; they are not
  part of the source.\<close>

definition uniform_at :: "real list list \<Rightarrow> nat \<Rightarrow> real \<Rightarrow> real" where
  "uniform_at ranges i u = ranges ! i ! 0 + (ranges ! i ! 1 - ranges ! i ! 0) * u"

definition candidate :: "real list list \<Rightarrow> real \<Rightarrow> nat \<Rightarrow> rng \<Rightarrow> real \<Rightarrow> nat \<Rightarrow> real list" where
  "candidate ranges W_sign n rg z k =
     map (\<lambda>i. if i = 0 then uniform_at ranges 0 (draws rg (pos rg + n * k)) * W_sign
               else uniform_at ranges i (draws rg (pos rg + n * k + i))) [0..<n] @ [z]"

text \<open>A concrete run: point group C4v, the ranges of the script at the end of the source
  (with the leading range \<open>[0.5, 50]\<close>), sign \<open>-1\<close>, and a generator whose first pass is
  rejected and whose second pass is accepted.\<close>

definition example_td :: training_data where
  "example_td = \<lparr>point_group = ''C4v'', N_t = 1, J = 4, L = 5, S = 1, B_directions = [[0, 0, 1]]\<rparr>"

definition example_ranges :: "real list list" where
  "example_ranges = [[1/2, 50], [-1, 1], [-1, 1], [-1, 1], [-1, 1]]"

definition example_draws :: "nat \<Rightarrow> real" where
  "example_draws i = (if i = 0 then 1/10 else if i < 5 then 9/10 else if i = 5 then 7/10 else 1/2)"

definition example_rng :: rng where
  "example_rng = \<lparr>draws = example_draws, pos = 0\<rparr>"

section \<open>The loop condition in double precision\<close>

text \<open>
  The source evaluates the loop condition in float64, as the total sum minus the first and
  the last entry. Next to a leading entry of large magnitude this differs from the value
  over the reals, so the condition is modelled a second time with the rounding of every
  operation written out. \<open>fl64\<close> rounds a real number to the nearest number with a 53-bit
  significand, ties to the even significand (IEEE 754 round-to-nearest-even; the exponent
  range, that is overflow and subnormal numbers, is not modelled).
\<close>

definition round_even :: "real \<Rightarrow> int" where
  "round_even y =
     (if y - of_int \<lfloor>y\<rfloor> < 1/2 then \<lfloor>y\<rfloor>
      else if 1/2 < y - of_int \<lfloor>y\<rfloor> then \<lfloor>y\<rfloor> + 1
      else if even \<lfloor>y\<rfloor> then \<lfloor>y\<rfloor> else \<lfloor>y\<rfloor> + 1)"

definition fl64 :: "real \<Rightarrow> real" where
  "fl64 x =
     (if x = 0 then 0
      else 2 powr (of_int \<lfloor>log 2 \<bar>x\<bar>\<rfloor> - 52) * of_int (round_even (x / 2 powr (of_int \<lfloor>log 2 \<bar>x\<bar>\<rfloor> - 52))))"

text \<open>\<open>np.sum\<close> of a float64 array of fewer than 8 entries: the entries are added to an
  accumulator one after the other, each addition rounded.\<close>

definition fsum64 :: "real list \<Rightarrow> real" where
  "fsum64 xs = foldl (\<lambda>acc x. fl64 (acc + x)) 0 xs"

text \<open>\<open>np.sum(np.abs(stevens_params)) - np.abs(stevens_params[0]) - np.abs(stevens_params[-1]) > 1\<close>
  as float64 arithmetic evaluates it (\<open>np.abs\<close> is exact).\<close>

definition rejected_float64 :: "real list \<Rightarrow> bool" where
  "rejected_float64 ps \<longleftrightarrow> fl64 (fl64 (fsum64 (map abs ps) - \<bar>ps ! 0\<bar>) - \<bar>last ps\<bar>) > 1"

text \<open>\<open>generate_random_stevens\<close> with this loop condition. The draws and the parameter
  values stay real numbers; in the run considered below all of them are dyadic rationals
  on which the float64 operations of the loop body are exact.\<close>

partial_function (option) stevens_loop_float64 ::
  "real list list \<Rightarrow> real \<Rightarrow> nat \<Rightarrow> real list \<Rightarrow> rng \<Rightarrow> ((error + real list) \<times> rng) option" where
  "stevens_loop_float64 ranges W_sign n ps rg =
     (if rejected_float64 ps then
        (case assign_draws ranges W_sign [0..<n] ps rg of
           (Inl e, rg') \<Rightarrow> Some (Inl e, rg')
         | (Inr ps', rg') \<Rightarrow> stevens_loop_float64 ranges W_sign n ps' rg')
      else Some (Inr ps, rg))"

definition generate_random_stevens_float64 ::
  "training_data \<Rightarrow> real list list \<Rightarrow> real \<Rightarrow> rng \<Rightarrow> ((error + real list) \<times> rng) option" where
  "generate_random_stevens_float64 td ranges W_sign rg =
     (if point_group td = ''Oh'' then
        (case draw_uniform ranges 0 rg of
           (Inl e, rg1) \<Rightarrow> Some (Inl e, rg1)
         | (Inr u0, rg1) \<Rightarrow>
             (case draw_uniform ranges 1 rg1 of
                (Inl e, rg2) \<Rightarrow> Some (Inl e, rg2)
              | (Inr x1, rg2) \<Rightarrow> Some (Inr [u0 * W_sign, x1], rg2)))
      else if point_group td = ''C4v'' then
        (case stevens_loop_float64 ranges W_sign 5 [1, 1, 1, 1, 1, 0] rg of
           None \<Rightarrow> None
         | Some (Inl e, rg1) \<Rightarrow> Some (Inl e, rg1)
         | Some (Inr ps, rg1) \<Rightarrow> (case random rg1 of (u, rg2) \<Rightarrow> Some (Inr (ps[5 := 2 * u - 1]), rg2)))
      else if point_group td = ''D3h'' then
        (case stevens_loop_float64 ranges W_sign 4 [1, 1, 1, 1, 0] rg of
           None \<Rightarrow> None
         | Some (Inl e, rg1) \<Rightarrow> Some (Inl e, rg1)
         | Some (Inr ps, rg1) \<Rightarrow> (case random rg1 of (u, rg2) \<Rightarrow> Some (Inr (ps[4 := 2 * u - 1]), rg2)))
      else Some (Inl (ValueError ''This point group is not implemented.''), rg))"

text \<open>A run with a large range for the leading parameter: point group C4v, leading range
  \<open>[0, 2**60]\<close>, sign \<open>+1\<close>, first draw \<open>0.5\<close> and interior draws \<open>0.9375\<close>.\<close>

definition absorb_ranges :: "real list list" where
  "absorb_ranges = [[0, 2 ^ 60], [-1, 1], [-1, 1], [-1, 1], [-1, 1]]"

definition absorb_draws :: "nat \<Rightarrow> real" where
  "absorb_draws i = (if i = 0 then 1/2 else if i < 5 then 15/16 else 1/2)"

definition absorb_rng :: rng where
  "absorb_rng = \<lparr>draws = absorb_draws, pos = 0\<rparr>"

section \<open>Arrays: the numpy and scipy operations the source uses\<close>

text \<open>
  A matrix is the list of its rows. The elementwise sum of the operator matrices is taken
  row by row and entry by entry (\<open>mat_add\<close>, \<open>mat_sub\<close>); for the difference of the caller's
  Hamiltonian and the field term, where the caller decides one of the shapes, numpy's
  broadcasting and its shape error are modelled by \<open>np_sub\<close>.
\<close>

text \<open>\<open>np.arange(stop)\<close> for a float \<open>stop\<close>: the numbers \<open>0, 1, ...\<close> below \<open>stop\<close>.\<close>

definition arange :: "real \<Rightarrow> real list" where
  "arange stop = map real [0..<nat \<lceil>stop\<rceil>]"

text \<open>\<open>np.diag(v, k)\<close>: the square matrix of size \<open>len(v) + |k|\<close> with \<open>v\<close> on the \<open>k\<close>-th
  diagonal (entries \<open>(r, c)\<close> with \<open>c - r = k\<close>) and zero elsewhere.\<close>

definition np_diag :: "complex list \<Rightarrow> int \<Rightarrow> cmatrix" where
  "np_diag v k =
     (let n = length v + nat \<bar>k\<bar>
      in map (\<lambda>r. map (\<lambda>c. if int c - int r = k then v ! (if 0 \<le> k then r else c) else 0) [0..<n]) [0..<n])"

text \<open>The decimal numeral of an integer, as Python's \<open>%s\<close> prints it.\<close>

function string_of_nat :: "nat \<Rightarrow> string" where
  "string_of_nat n =
     (if n < 10 then [''0123456789'' ! n]
      else string_of_nat (n div 10) @ [''0123456789'' ! (n mod 10)])"
  by pat_completeness auto
termination
  by (relation "measure id") auto

definition string_of_int :: "int \<Rightarrow> string" where
  "string_of_int i = (if i < 0 then ''-'' @ string_of_nat (nat (- i)) else string_of_nat (nat i))"

text \<open>\<open>np.linspace(start, stop, num)\<close>: \<open>num\<close> points with step \<open>(stop - start)/(num - 1)\<close>, the
  last one set to \<open>stop\<close>; a negative \<open>num\<close> raises \<open>ValueError\<close>.\<close>

definition linspace :: "real \<Rightarrow> real \<Rightarrow> int \<Rightarrow> error + real list" where
  "linspace start stop num =
     (if num < 0
      then Inl (ValueError (''Number of samples, '' @ string_of_int num @ '', must be non-negative.''))
      else Inr (map (\<lambda>i. if 1 < nat num \<and> i = nat num - 1 then stop
                          else if 1 < nat num then real i * ((stop - start) / real (nat num - 1)) + start
                          else real i * (stop - start) + start) [0..<nat num]))"

text \<open>\<open>np.geomspace(start, stop, num)\<close>: \<open>ValueError\<close> when an end point is zero; otherwise
  \<open>num\<close> points, the first set to \<open>start\<close>, the last to \<open>stop\<close>, the interior ones computed
  as \<open>10 ** linspace(log10 start, log10 stop)\<close> (with both signs flipped when both end points
  are negative). For end points of different sign the logarithm is \<open>nan\<close>: \<open>None\<close>.\<close>

definition geomspace :: "real \<Rightarrow> real \<Rightarrow> int \<Rightarrow> error + real option list" where
  "geomspace start stop num =
     (if start = 0 \<or> stop = 0 then Inl (ValueError ''Geometric sequence cannot include zero'')
      else if num < 0
      then Inl (ValueError (''Number of samples, '' @ string_of_int num @ '', must be non-negative.''))
      else Inr (map (\<lambda>i. if i = 0 then Some start
                          else if i = nat num - 1 then Some stop
                          else if 0 < start \<and> 0 < stop then
                            Some (10 powr (log 10 start
                                    + real i * ((log 10 stop - log 10 start) / real (nat num - 1))))
                          else if start < 0 \<and> stop < 0 then
                            Some (- (10 powr (log 10 (- start)
                                    + real i * ((log 10 (- stop) - log 10 (- start)) / real (nat num - 1)))))
                          else None) [0..<nat num]))"

definition mat_add :: "cmatrix \<Rightarrow> cmatrix \<Rightarrow> cmatrix" where
  "mat_add A B = map2 (map2 (+)) A B"

definition mat_sub :: "cmatrix \<Rightarrow> cmatrix \<Rightarrow> cmatrix" where
  "mat_sub A B = map2 (map2 (-)) A B"

definition mat_scale :: "complex \<Rightarrow> cmatrix \<Rightarrow> cmatrix" where
  "mat_scale c A = map (map (\<lambda>x. c * x)) A"

text \<open>
  The shape \<open>(rows, columns)\<close> of a two-dimensional array; a list whose rows differ in length
  is not an array. The empty list is read as the array of shape \<open>(0, 0)\<close>.
\<close>

definition shape2 :: "cmatrix \<Rightarrow> (nat \<times> nat) option" where
  "shape2 A =
     (case A of
        [] \<Rightarrow> Some (0, 0)
      | row # rows \<Rightarrow> if \<forall>r\<in>set rows. length r = length row then Some (length A, length row) else None)"

text \<open>Broadcasting of one axis: two lengths are compatible when they are equal or one of them
  is 1; the length 1 is stretched to the other.\<close>

definition bdim :: "nat \<Rightarrow> nat \<Rightarrow> nat option" where
  "bdim a b = (if a = b \<or> b = 1 then Some a else if a = 1 then Some b else None)"

text \<open>\<open>A - B\<close> for two-dimensional arrays: the elementwise difference after broadcasting, a
  \<open>ValueError\<close> when the shapes cannot be broadcast together (or when asked to build an array
  from rows of different lengths).\<close>

definition np_sub :: "cmatrix \<Rightarrow> cmatrix \<Rightarrow> error + cmatrix" where
  "np_sub A B =
     (case (shape2 A, shape2 B) of
        (Some (m, n), Some (p, q)) \<Rightarrow>
          (case (bdim m p, bdim n q) of
             (Some rows, Some cols) \<Rightarrow>
               Inr (map (\<lambda>r. map (\<lambda>c. A ! (if m = 1 then 0 else r) ! (if n = 1 then 0 else c)
                                      - B ! (if p = 1 then 0 else r) ! (if q = 1 then 0 else c))
                               [0..<cols])
                        [0..<rows])
           | _ \<Rightarrow> Inl (ValueError ''operands could not be broadcast together''))
      | _ \<Rightarrow> Inl (ValueError ''inhomogeneous shape''))"

text \<open>\<open>A[:, j]\<close>, \<open>np.dot\<close> of two vectors and \<open>np.dot\<close> of two matrices.\<close>

definition column :: "cmatrix \<Rightarrow> nat \<Rightarrow> complex list" where
  "column A j = map (\<lambda>row. row ! j) A"

definition dot :: "complex list \<Rightarrow> complex list \<Rightarrow> complex" where
  "dot u v = sum_list (map2 (*) u v)"

definition ncols :: "cmatrix \<Rightarrow> nat" where
  "ncols A = (case A of [] \<Rightarrow> 0 | row # _ \<Rightarrow> length row)"

definition mat_mul :: "cmatrix \<Rightarrow> cmatrix \<Rightarrow> cmatrix" where
  "mat_mul A B = map (\<lambda>row. map (\<lambda>j. dot row (column B j)) [0..<ncols B]) A"

text \<open>\<open>scipy.linalg.norm\<close> of a vector.\<close>

definition LA_norm :: "real list \<Rightarrow> real" where
  "LA_norm v = sqrt (sum_list (map (\<lambda>x. x\<^sup>2) v))"

text \<open>\<open>scipy.linalg.eigvalsh\<close> and \<open>scipy.linalg.eigh\<close> are parameters of the model:
  \<open>eigvalsh\<close> gives the eigenvalues, \<open>eigh\<close> the eigenvalues and the matrix whose columns
  are the eigenvectors.\<close>

type_synonym eigvalsh_fn = "cmatrix \<Rightarrow> real list"
type_synonym eigh_fn = "cmatrix \<Rightarrow> real list \<times> cmatrix"

section \<open>Angular momentum operators and the g-factor\<close>

text \<open>The real matrices \<open>Jz\<close>, \<open>J+\<close>, \<open>J-\<close>, \<open>Jx\<close> are embedded in the complex matrices, as numpy
  does when it combines them with \<open>Jy\<close>. \<open>dtype=np.float\<close> in \<open>Jz_op\<close> is read as the double
  precision float type that it names in the numpy versions the source was written for.\<close>

definition Jz_op :: "training_data \<Rightarrow> cmatrix" where
  "Jz_op td = np_diag (map (\<lambda>x. complex_of_real (x - J td)) (arange (2 * J td + 1))) 0"

definition Jplus_op :: "training_data \<Rightarrow> cmatrix" where
  "Jplus_op td =
     np_diag (map (\<lambda>x. complex_of_real (sqrt ((2 * J td - x) * (x + 1)))) (arange (2 * J td))) (- 1)"

definition Jminus_op :: "training_data \<Rightarrow> cmatrix" where
  "Jminus_op td =
     np_diag (map (\<lambda>x. complex_of_real (sqrt ((2 * J td - x) * (x + 1)))) (arange (2 * J td))) 1"

definition Jx_op :: "training_data \<Rightarrow> cmatrix" where
  "Jx_op td = map (map (\<lambda>x. x / 2)) (mat_add (Jplus_op td) (Jminus_op td))"

definition Jy_op :: "training_data \<Rightarrow> cmatrix" where
  "Jy_op td = mat_scale (- \<i> / 2) (mat_sub (Jplus_op td) (Jminus_op td))"

text \<open>\<open>gJLS\<close> divides Python numbers: \<open>ZeroDivisionError\<close> when \<open>2*J*(J+1)\<close> is zero.\<close>

definition gJLS :: "training_data \<Rightarrow> error + real" where
  "gJLS td =
     (if 2 * J td * (J td + 1) = 0 then Inl ZeroDivisionError
      else Inr (1 + (J td * (J td + 1) + S td * (S td + 1) - L td * (L td + 1)) / (2 * J td * (J td + 1))))"

definition muB_over_kB :: real where
  "muB_over_kB = 0.671713816"

section \<open>Thermal observables\<close>

text \<open>\<open>energies - energies[0]\<close>: \<open>IndexError\<close> on an empty spectrum.\<close>

definition shift_energies :: "real list \<Rightarrow> error + real list" where
  "shift_energies energies = (case energies of [] \<Rightarrow> Inl IndexError | e0 # _ \<Rightarrow> Inr (map (\<lambda>e. e - e0) energies))"

definition Z_cr :: "real list \<Rightarrow> real \<Rightarrow> real" where
  "Z_cr energies T = sum_list (map (\<lambda>e. exp (- e / T)) energies)"

definition cV :: "real list \<Rightarrow> real \<Rightarrow> real" where
  "cV energies T =
     1 / T\<^sup>2 * (sum_list (map (\<lambda>e. e\<^sup>2 * exp (- e / T)) energies) / Z_cr energies T
                - (sum_list (map (\<lambda>e. e * exp (- e / T) / Z_cr energies T) energies))\<^sup>2)"

text \<open>\<open>specific_heat\<close>. At \<open>T = 0\<close> the source divides by zero in floating point: numpy warns
  and the value is \<open>nan\<close>, here \<open>None\<close>; no exception is raised. At any other temperature the
  slot holds \<open>Some\<close> of the real value of the expression. This is the value the float64
  computation approximates as long as no intermediate result overflows; an overflow of
  \<open>exp\<close> (negative temperatures, large energies), which numpy turns into \<open>inf\<close> or \<open>nan\<close>,
  is not modelled, so \<open>Some\<close> does not assert that the float64 result is finite.\<close>

definition specific_heat ::
  "eigvalsh_fn \<Rightarrow> cmatrix \<Rightarrow> real \<Rightarrow> real \<Rightarrow> int \<Rightarrow> error + (real \<times> real option) list" where
  "specific_heat eigvalsh ham T_min T_max T_steps =
     (case linspace T_min T_max T_steps of
        Inl e \<Rightarrow> Inl e
      | Inr T \<Rightarrow>
          (case shift_energies (eigvalsh ham) of
             Inl e \<Rightarrow> Inl e
           | Inr energies \<Rightarrow> Inr (map (\<lambda>t. (t, if t = 0 then None else Some (cV energies t))) T)))"

text \<open>
  \<open>B_direction = B_direction/LA.norm(B_direction)\<close> followed by
  \<open>J_op = B_direction[0]*Jx + B_direction[1]*Jy + B_direction[2]*Jz\<close>. A direction with fewer
  than three entries raises \<open>IndexError\<close>. A direction of norm zero gives \<open>0/0 = nan\<close> in every
  component and hence a matrix of \<open>nan\<close>: \<open>None\<close>.
\<close>

definition field_operator :: "training_data \<Rightarrow> real list \<Rightarrow> error + cmatrix option" where
  "field_operator td B_direction =
     (if length B_direction < 3 then Inl IndexError
      else if LA_norm B_direction = 0 then Inr None
      else Inr (Some (mat_add
             (mat_add (mat_scale (complex_of_real (B_direction ! 0 / LA_norm B_direction)) (Jx_op td))
                      (mat_scale (complex_of_real (B_direction ! 1 / LA_norm B_direction)) (Jy_op td)))
             (mat_scale (complex_of_real (B_direction ! 2 / LA_norm B_direction)) (Jz_op td)))))"

text \<open>\<open>ham = ham_cr - gJLS*self.muB_over_kB*J_op*B\<close>; the argument \<open>ham_cr\<close> of the two methods
  is called \<open>ham0\<close> here. The field term has the shape of \<open>J_op\<close>; the difference broadcasts
  or raises as numpy does.\<close>

definition perturbed_ham :: "real \<Rightarrow> cmatrix \<Rightarrow> cmatrix \<Rightarrow> real \<Rightarrow> error + cmatrix" where
  "perturbed_ham g ham0 J_op B =
     np_sub ham0 (map (map (\<lambda>x. complex_of_real (g * muB_over_kB) * x * complex_of_real B)) J_op)"

text \<open>When the direction has norm zero, \<open>J_op\<close> is a matrix of \<open>nan\<close> of the shape of the sum of
  the three operators; the subtraction can still fail on the shapes before \<open>eigh\<close> sees the
  \<open>nan\<close> entries.\<close>

definition nan_field_shape :: "training_data \<Rightarrow> cmatrix" where
  "nan_field_shape td = mat_add (mat_add (Jx_op td) (Jy_op td)) (Jz_op td)"

text \<open>The two lines that \<open>magnetization\<close> and \<open>susceptibility\<close> share word for word:
  \<open>ZB = np.sum(np.exp(-energies/T))\<close> and
  \<open>mag = gJLS/ZB*np.sum([np.dot(np.conjugate(eigenstates[:,i]), np.dot(J_op, eigenstates)[:, i])
     *np.exp(-energies[i]/T) for i in range(0, len(energies))])\<close>.\<close>

definition mag :: "real \<Rightarrow> cmatrix \<Rightarrow> real list \<Rightarrow> cmatrix \<Rightarrow> real \<Rightarrow> complex" where
  "mag g J_op energies eigenstates T =
     complex_of_real (g / sum_list (map (\<lambda>e. exp (- e / T)) energies))
     * sum_list (map (\<lambda>i. dot (map cnj (column eigenstates i)) (column (mat_mul J_op eigenstates) i)
                          * complex_of_real (exp (- (energies ! i) / T)))
                 [0..<length energies])"

text \<open>
  \<open>susceptibility\<close>. \<open>scipy.linalg.eigh\<close> checks its argument and raises \<open>ValueError\<close> on a
  matrix with \<open>nan\<close> entries. Storing the complex \<open>mag/B\<close> in the real array keeps its real
  part. A division by \<open>T = 0\<close> or \<open>B = 0\<close> yields a non-finite value (\<open>None\<close>), not an exception;
  as in \<open>specific_heat\<close>, \<open>Some\<close> holds the real value of the expression and overflow is not
  modelled.
\<close>

definition susceptibility ::
  "training_data \<Rightarrow> eigh_fn \<Rightarrow> cmatrix \<Rightarrow> real list \<Rightarrow> real \<Rightarrow> real \<Rightarrow> real \<Rightarrow> int
     \<Rightarrow> error + (real \<times> real option) list" where
  "susceptibility td eigh ham0 B_direction B T_min T_max T_steps =
     (case gJLS td of
        Inl e \<Rightarrow> Inl e
      | Inr g \<Rightarrow>
     (case linspace T_min T_max T_steps of
        Inl e \<Rightarrow> Inl e
      | Inr T_array \<Rightarrow>
     (case field_operator td B_direction of
        Inl e \<Rightarrow> Inl e
      | Inr None \<Rightarrow>
          (case np_sub ham0 (nan_field_shape td) of
             Inl e \<Rightarrow> Inl e
           | Inr _ \<Rightarrow> Inl (ValueError ''array must not contain infs or NaNs''))
      | Inr (Some J_op) \<Rightarrow>
     (case perturbed_ham g ham0 J_op B of
        Inl e \<Rightarrow> Inl e
      | Inr ham \<Rightarrow>
     (case eigh ham of
        (energies0, eigenstates) \<Rightarrow>
     (case shift_energies energies0 of
        Inl e \<Rightarrow> Inl e
      | Inr energies \<Rightarrow>
          Inr (map (\<lambda>T. (T, if T = 0 \<or> B = 0 then None
                             else Some (Re (mag g J_op energies eigenstates T / complex_of_real B))))
                   T_array)))))))"

text \<open>The body of the loop over \<open>B_idx\<close> in \<open>magnetization\<close>: one row \<open>(B, T, mag)\<close> for each
  temperature of the grid.\<close>

definition mag_B ::
  "real \<Rightarrow> cmatrix \<Rightarrow> eigh_fn \<Rightarrow> cmatrix \<Rightarrow> real option list \<Rightarrow> real
     \<Rightarrow> error + (real \<times> real option \<times> real option) list" where
  "mag_B g J_op eigh ham0 T_array B =
     (case perturbed_ham g ham0 J_op B of
        Inl e \<Rightarrow> Inl e
      | Inr ham \<Rightarrow>
     (case eigh ham of
        (energies0, eigenstates) \<Rightarrow>
     (case shift_energies energies0 of
        Inl e \<Rightarrow> Inl e
      | Inr energies \<Rightarrow>
          Inr (map (\<lambda>T. (B, T, case T of
                                  None \<Rightarrow> None
                                | Some t \<Rightarrow> if t = 0 then None
                                            else Some (Re (mag g J_op energies eigenstates t))))
                   T_array))))"

text \<open>The loop over \<open>B_idx\<close>: it stops at the first exception.\<close>

fun mag_rows :: "(real \<Rightarrow> error + 'r) \<Rightarrow> real list \<Rightarrow> error + 'r list" where
  "mag_rows body [] = Inr []"
| "mag_rows body (B # Bs) =
     (case body B of
        Inl e \<Rightarrow> Inl e
      | Inr row \<Rightarrow> (case mag_rows body Bs of Inl e \<Rightarrow> Inl e | Inr rows \<Rightarrow> Inr (row # rows)))"

definition magnetization ::
  "training_data \<Rightarrow> eigh_fn \<Rightarrow> cmatrix \<Rightarrow> real list \<Rightarrow> real \<Rightarrow> real \<Rightarrow> int \<Rightarrow> real \<Rightarrow> real \<Rightarrow> int
     \<Rightarrow> error + (real \<times> real option \<times> real option) list list" where
  "magnetization td eigh ham0 B_direction B_min B_max B_steps T_min T_max T_steps =
     (case gJLS td of
        Inl e \<Rightarrow> Inl e
      | Inr g \<Rightarrow>
     (case geomspace T_min T_max T_steps of
        Inl e \<Rightarrow> Inl e
      | Inr T_array \<Rightarrow>
     (case linspace B_min B_max B_steps of
        Inl e \<Rightarrow> Inl e
      | Inr B_array \<Rightarrow>
     (case field_operator td B_direction of
        Inl e \<Rightarrow> Inl e
      | Inr None \<Rightarrow>
          (if B_array = [] then Inr []
           else (case np_sub ham0 (nan_field_shape td) of
                   Inl e \<Rightarrow> Inl e
                 | Inr _ \<Rightarrow> Inl (ValueError ''array must not contain infs or NaNs'')))
      | Inr (Some J_op) \<Rightarrow> mag_rows (mag_B g J_op eigh ham0 T_array) B_array))))"

text \<open>
  The specification's words for the specific heat, to be compared with the code: the
  temperature grid with constant step from \<open>T_min\<close> to \<open>T_max\<close>, the spectrum shifted so that
  its minimum is zero, the Boltzmann weights \<open>exp(-E_j/T)/Z(T)\<close> with
  \<open>Z(T) = sum_j exp(-E_j/T)\<close> and the weighted average of a function of the energy.
\<close>

definition linear_grid :: "real \<Rightarrow> real \<Rightarrow> nat \<Rightarrow> nat \<Rightarrow> real" where
  "linear_grid T_min T_max n i = (if n \<le> 1 then T_min else T_min + real i * (T_max - T_min) / real (n - 1))"

definition zero_referenced :: "real list \<Rightarrow> real list" where
  "zero_referenced evs = map (\<lambda>e. e - Min (set evs)) evs"

definition boltzmann_weight :: "real list \<Rightarrow> real \<Rightarrow> nat \<Rightarrow> real" where
  "boltzmann_weight E T j = exp (- (E ! j) / T) / (\<Sum>i<length E. exp (- (E ! i) / T))"

definition boltzmann_average :: "real list \<Rightarrow> real \<Rightarrow> (real \<Rightarrow> real) \<Rightarrow> real" where
  "boltzmann_average E T f = (\<Sum>j<length E. boltzmann_weight E T j * f (E ! j))"

text \<open>A concrete configuration: \<open>J = 1/2\<close>, a two-level Hamiltonian, and eigenvalue routines
  that return its spectrum \<open>[0, 1]\<close> with the unit vectors as eigenvectors.\<close>

definition example_spin_half :: training_data where
  "example_spin_half = \<lparr>point_group = ''Oh'', N_t = 1, J = 1/2, L = 0, S = 1/2, B_directions = [[0, 0, 1]]\<rparr>"

definition example_ham :: cmatrix where
  "example_ham = [[0, 0], [0, 1]]"

definition example_eigvalsh :: eigvalsh_fn where
  "example_eigvalsh M = [0, 1]"

definition example_eigh :: eigh_fn where
  "example_eigh M = ([0, 1], [[1, 0], [0, 1]])"

text \<open>
  Notions used to state the properties of the operators: a square matrix of size \<open>d\<close>, the
  commutator \<open>[A, B] = A B - B A\<close>, and the \<open>(r, c)\<close> entry of a product of two matrices given
  by their entries.
\<close>

definition is_square :: "nat \<Rightarrow> cmatrix \<Rightarrow> bool" where
  "is_square d A \<longleftrightarrow> length A = d \<and> (\<forall>row\<in>set A. length row = d)"

definition commutator :: "cmatrix \<Rightarrow> cmatrix \<Rightarrow> cmatrix" where
  "commutator A B = mat_sub (mat_mul A B) (mat_mul B A)"

definition fprod :: "nat \<Rightarrow> (nat \<Rightarrow> nat \<Rightarrow> complex) \<Rightarrow> (nat \<Rightarrow> nat \<Rightarrow> complex) \<Rightarrow> nat \<Rightarrow> nat \<Rightarrow> complex" where
  "fprod d A B r c = (\<Sum>k<d. A r k * B k c)"

text \<open>The entry \<open>sqrt((2J - k)(k + 1))\<close> of the ladder operators at position \<open>k\<close> of their band.\<close>

definition ladder :: "training_data \<Rightarrow> nat \<Rightarrow> complex" where
  "ladder td k = complex_of_real (sqrt ((2 * J td - real k) * (real k + 1)))"

text \<open>
  The specification's words for the field Hamiltonian, to be compared with the code: the
  Land\'e factor \<open>1 + [J(J+1) + S(S+1) - L(L+1)] / [2J(J+1)]\<close>, the direction divided by its
  Euclidean length, the operator \<open>J_dir = d_x Jx + d_y Jy + d_z Jz\<close> of the normalized
  direction, and \<open>ham0 - gFactor * 0.671713816 * J_dir * B\<close>, entry by entry on the size of
  the operators.
\<close>

definition lande_factor :: "training_data \<Rightarrow> real" where
  "lande_factor td =
     1 + (J td * (J td + 1) + S td * (S td + 1) - L td * (L td + 1)) / (2 * J td * (J td + 1))"

definition normalized :: "real list \<Rightarrow> real list" where
  "normalized dirn = map (\<lambda>x. x / sqrt (\<Sum>y\<leftarrow>dirn. y\<^sup>2)) dirn"

definition J_dir :: "training_data \<Rightarrow> real list \<Rightarrow> cmatrix" where
  "J_dir td dirn =
     map (\<lambda>r. map (\<lambda>c. complex_of_real (normalized dirn ! 0) * Jx_op td ! r ! c
                      + complex_of_real (normalized dirn ! 1) * Jy_op td ! r ! c
                      + complex_of_real (normalized dirn ! 2) * Jz_op td ! r ! c)
               [0..<length (Jz_op td)])
         [0..<length (Jz_op td)]"

definition field_hamiltonian :: "training_data \<Rightarrow> cmatrix \<Rightarrow> real list \<Rightarrow> real \<Rightarrow> real \<Rightarrow> cmatrix" where
  "field_hamiltonian td ham0 dirn gFactor B =
     map (\<lambda>r. map (\<lambda>c. ham0 ! r ! c - complex_of_real (gFactor * 0.671713816 * B) * J_dir td dirn ! r ! c)
               [0..<length (Jz_op td)])
         [0..<length (Jz_op td)]"

section \<open>Properties of \<open>ham_cr\<close>\<close>

text \<open>
  Claim C9. For each of the three supported point groups, a parameter vector whose length
  differs from the expected count (2 for Oh, 6 for C4v, 5 for D3h) makes \<open>ham_cr\<close> raise
  the parameter-count error (a \<open>ValueError\<close> in the source), and no function of the
  external library has been called at that point.
\<close>

theorem ham_cr_count_mismatch:
  assumes "point_group td \<in> {''Oh'', ''C4v'', ''D3h''}"
    and "length ps \<noteq> expected_count (point_group td)"
  shows "\<exists>msg. ham_cr lib td ps = (Inl (ValueError msg), [])"
  using assms by (auto simp: ham_cr_def expected_count_def)

theorem ham_cr_count_mismatch_witness:
  "point_group \<lparr>point_group = ''C4v'', N_t = 1, J = 4, L = 5, S = 1, B_directions = [[0,0,1]]\<rparr>
     \<in> {''Oh'', ''C4v'', ''D3h''}
   \<and> length [1, 2, 3 :: real] \<noteq> expected_count ''C4v''
   \<and> (\<exists>msg. ham_cr (\<lambda>_ _. [])
        \<lparr>point_group = ''C4v'', N_t = 1, J = 4, L = 5, S = 1, B_directions = [[0,0,1]]\<rparr> [1, 2, 3]
        = (Inl (ValueError msg), []))"
  using ham_cr_count_mismatch [of "\<lparr>point_group = ''C4v'', N_t = 1, J = 4, L = 5, S = 1, B_directions = [[0,0,1]]\<rparr>"
      "[1, 2, 3]" "\<lambda>_ _. []"]
  by (simp add: expected_count_def)

text \<open>
  Claim C10. For a supported point group and a parameter vector of the right length, a
  value of \<open>J\<close> outside \<open>{3.5, 4, 4.5, 6, 7.5, 8}\<close> makes \<open>ham_cr\<close> return \<open>None\<close>: no error
  is raised and no library function is called.
\<close>

theorem ham_cr_unsupported_J_returns_None:
  assumes "point_group td \<in> {''Oh'', ''C4v'', ''D3h''}"
    and "length ps = expected_count (point_group td)"
    and "J td \<notin> {3.5, 4, 4.5, 6, 7.5, 8}"
  shows "ham_cr lib td ps = (Inr None, [])"
  using assms by (auto simp: ham_cr_def ham_cr_J_def expected_count_def)

theorem ham_cr_unsupported_J_returns_None_witness:
  "point_group \<lparr>point_group = ''C4v'', N_t = 1, J = 15, L = 6, S = 3/2, B_directions = [[1,0,0],[0,0,1]]\<rparr>
     \<in> {''Oh'', ''C4v'', ''D3h''}
   \<and> length [1, 0, 0, 0, 0, 1 :: real] = expected_count ''C4v''
   \<and> (15 :: real) \<notin> {3.5, 4, 4.5, 6, 7.5, 8}
   \<and> ham_cr (\<lambda>_ _. [])
        \<lparr>point_group = ''C4v'', N_t = 1, J = 15, L = 6, S = 3/2, B_directions = [[1,0,0],[0,0,1]]\<rparr>
        [1, 0, 0, 0, 0, 1] = (Inr None, [])"
  using ham_cr_unsupported_J_returns_None [of
      "\<lparr>point_group = ''C4v'', N_t = 1, J = 15, L = 6, S = 3/2, B_directions = [[1,0,0],[0,0,1]]\<rparr>"
      "[1, 0, 0, 0, 0, 1]" "\<lambda>_ _. []"]
  by (simp add: expected_count_def)

section \<open>Properties of \<open>generate_random_stevens\<close>\<close>

lemma interior_sum:
  fixes ps :: "real list"
  assumes "2 \<le> length ps"
  shows "sum_list (map abs (butlast (tl ps))) = sum_list (map abs ps) - \<bar>ps ! 0\<bar> - \<bar>last ps\<bar>"
proof -
  from assms obtain x ys where ps: "ps = x # ys" and ys: "ys \<noteq> []"
    by (cases ps; cases "tl ps") auto
  have "ys = butlast ys @ [last ys]" using ys by simp
  then have "map abs ys = map abs (butlast ys) @ [\<bar>last ys\<bar>]"
    by (metis list.simps(8,9) map_append)
  then have "sum_list (map abs ys) = sum_list (map abs (butlast ys)) + \<bar>last ys\<bar>"
    by simp
  moreover have "sum_list (map abs ps) = \<bar>x\<bar> + sum_list (map abs ys)" "\<bar>ps ! 0\<bar> = \<bar>x\<bar>"
    "\<bar>last ps\<bar> = \<bar>last ys\<bar>"
    "sum_list (map abs (butlast (tl ps))) = sum_list (map abs (butlast ys))"
    using ps ys by simp_all
  ultimately show ?thesis by linarith
qed

lemma draw_uniform_Inr:
  assumes "draw_uniform ranges i rg = (Inr x, rg')"
  shows "x = uniform_at ranges i (draws rg (pos rg)) \<and> rg' = rg\<lparr>pos := Suc (pos rg)\<rparr>"
  using assms
  by (auto simp: draw_uniform_def range_row_def random_def uniform_at_def split: if_splits)

lemma assign_draws_upt:
  assumes "assign_draws ranges W [m..<n] ps rg = (Inr ps1, rg1)" and "m \<le> n" and "n \<le> length ps"
  shows "rg1 = rg\<lparr>pos := pos rg + (n - m)\<rparr> \<and> length ps1 = length ps \<and>
     (\<forall>i<length ps. ps1 ! i =
        (if m \<le> i \<and> i < n
         then (if i = 0 then uniform_at ranges 0 (draws rg (pos rg + (i - m))) * W
               else uniform_at ranges i (draws rg (pos rg + (i - m))))
         else ps ! i))"
  using assms
proof (induction "n - m" arbitrary: m ps rg)
  case 0
  then have "m = n" by simp
  with 0 show ?case by simp
next
  case (Suc d)
  then have mn: "m < n" by simp
  then have upt: "[m..<n] = m # [Suc m..<n]" by (simp add: upt_conv_Cons)
  obtain r rg' where du: "draw_uniform ranges m rg = (r, rg')"
    by (cases "draw_uniform ranges m rg") auto
  from Suc.prems(1) upt du obtain x where r: "r = Inr x"
    by (cases r) auto
  from draw_uniform_Inr du r
  have x: "x = uniform_at ranges m (draws rg (pos rg))" and rg': "rg' = rg\<lparr>pos := Suc (pos rg)\<rparr>"
    by blast+
  let ?ps = "ps[m := (if m = 0 then x * W else x)]"
  from Suc.prems(1) upt du r
  have rec: "assign_draws ranges W [Suc m..<n] ?ps rg' = (Inr ps1, rg1)" by simp
  have d: "d = n - Suc m" using Suc.hyps(2) by simp
  have len: "n \<le> length ?ps" using Suc.prems(3) by simp
  from Suc.hyps(1)[OF d rec _ len] mn
  have IH: "rg1 = rg'\<lparr>pos := pos rg' + (n - Suc m)\<rparr>" "length ps1 = length ?ps"
    "\<forall>i<length ?ps. ps1 ! i =
        (if Suc m \<le> i \<and> i < n
         then (if i = 0 then uniform_at ranges 0 (draws rg' (pos rg' + (i - Suc m))) * W
               else uniform_at ranges i (draws rg' (pos rg' + (i - Suc m))))
         else ?ps ! i)"
    by simp_all
  have 1: "rg1 = rg\<lparr>pos := pos rg + (n - m)\<rparr>"
    using IH(1) rg' mn by simp
  have 2: "length ps1 = length ps" using IH(2) by simp
  have 3: "ps1 ! i =
        (if m \<le> i \<and> i < n
         then (if i = 0 then uniform_at ranges 0 (draws rg (pos rg + (i - m))) * W
               else uniform_at ranges i (draws rg (pos rg + (i - m))))
         else ps ! i)" if "i < length ps" for i
  proof -
    from that IH(3) have e: "ps1 ! i =
        (if Suc m \<le> i \<and> i < n
         then (if i = 0 then uniform_at ranges 0 (draws rg' (pos rg' + (i - Suc m))) * W
               else uniform_at ranges i (draws rg' (pos rg' + (i - Suc m))))
         else ?ps ! i)" by simp
    consider "i < m" | "i = m" | "m < i"
      by linarith
    then show ?thesis
    proof cases
      case 1
      with e show ?thesis by simp
    next
      case 2
      with e mn that x show ?thesis by simp
    next
      case 3
      then have "Suc (pos rg) + (i - Suc m) = pos rg + (i - m)" by simp
      with e 3 rg' show ?thesis by simp
    qed
  qed
  from 1 2 3 show ?case by blast
qed

lemma length_candidate: "length (candidate ranges W n rg z k) = Suc n"
  by (simp add: candidate_def)


lemma last_candidate: "last (candidate ranges W n rg z k) = z"
  by (simp add: candidate_def)

lemma candidate_shift:
  "candidate ranges W n (rg\<lparr>pos := pos rg + n\<rparr>) z j = candidate ranges W n rg z (Suc j)"
  by (simp add: candidate_def add.assoc)

lemma assign_draws_candidate:
  assumes "assign_draws ranges W [0..<n] ps rg = (Inr ps1, rg1)" and "length ps = Suc n"
  shows "ps1 = candidate ranges W n rg (last ps) 0 \<and> rg1 = rg\<lparr>pos := pos rg + n\<rparr>"
proof -
  from assign_draws_upt[OF assms(1)] assms(2)
  have a: "rg1 = rg\<lparr>pos := pos rg + n\<rparr>" "length ps1 = length ps"
    "\<forall>i<length ps. ps1 ! i =
        (if i < n
         then (if i = 0 then uniform_at ranges 0 (draws rg (pos rg + i)) * W
               else uniform_at ranges i (draws rg (pos rg + i)))
         else ps ! i)"
    by simp_all
  have "ps1 = candidate ranges W n rg (last ps) 0"
  proof (rule nth_equalityI)
    show "length ps1 = length (candidate ranges W n rg (last ps) 0)"
      using a(2) assms(2) by (simp add: length_candidate)
  next
    fix i assume "i < length ps1"
    then have i: "i < Suc n" using a(2) assms(2) by simp
    show "ps1 ! i = candidate ranges W n rg (last ps) 0 ! i"
    proof (cases "i < n")
      case True
      with a(3) assms(2) show ?thesis
        by (simp add: candidate_def nth_append)
    next
      case False
      with i have "i = n" by simp
      moreover have "last ps = ps ! n" using assms(2)
        by (metis diff_Suc_1 last_conv_nth length_0_conv nat.distinct(1))
      ultimately show ?thesis using a(3) assms(2)
        by (simp add: candidate_def nth_append)
    qed
  qed
  with a(1) show ?thesis by simp
qed

lemma stevens_loop_char:
  assumes "stevens_loop ranges W n ps rg = Some y"
  shows "\<forall>ps' rg'. y = (Inr ps', rg') \<longrightarrow> length ps = Suc n \<longrightarrow>
     (if rejected ps
      then \<exists>k. (\<forall>j<k. rejected (candidate ranges W n rg (last ps) j))
            \<and> \<not> rejected (candidate ranges W n rg (last ps) k)
            \<and> ps' = candidate ranges W n rg (last ps) k
            \<and> rg' = rg\<lparr>pos := pos rg + n * Suc k\<rparr>
      else ps' = ps \<and> rg' = rg)"
proof (rule stevens_loop.raw_induct
    [where P = "\<lambda>ranges W n ps rg y. \<forall>ps' rg'. y = (Inr ps', rg') \<longrightarrow> length ps = Suc n \<longrightarrow>
     (if rejected ps
      then \<exists>k. (\<forall>j<k. rejected (candidate ranges W n rg (last ps) j))
            \<and> \<not> rejected (candidate ranges W n rg (last ps) k)
            \<and> ps' = candidate ranges W n rg (last ps) k
            \<and> rg' = rg\<lparr>pos := pos rg + n * Suc k\<rparr>
      else ps' = ps \<and> rg' = rg)", OF _ assms])
  fix f :: "real list list \<Rightarrow> real \<Rightarrow> nat \<Rightarrow> real list \<Rightarrow> rng \<Rightarrow> ((error + real list) \<times> rng) option"
  fix ranges W n ps rg y
  assume IH: "\<And>ranges W n ps rg y. f ranges W n ps rg = Some y \<Longrightarrow>
      \<forall>ps' rg'. y = (Inr ps', rg') \<longrightarrow> length ps = Suc n \<longrightarrow>
     (if rejected ps
      then \<exists>k. (\<forall>j<k. rejected (candidate ranges W n rg (last ps) j))
            \<and> \<not> rejected (candidate ranges W n rg (last ps) k)
            \<and> ps' = candidate ranges W n rg (last ps) k
            \<and> rg' = rg\<lparr>pos := pos rg + n * Suc k\<rparr>
      else ps' = ps \<and> rg' = rg)"
  assume body: "(if rejected ps
      then case assign_draws ranges W [0..<n] ps rg of
           (Inl e, rg') \<Rightarrow> Some (Inl e, rg')
           | (Inr ps', rg') \<Rightarrow> f ranges W n ps' rg'
      else Some (Inr ps, rg)) = Some y"
  show "\<forall>ps' rg'. y = (Inr ps', rg') \<longrightarrow> length ps = Suc n \<longrightarrow>
     (if rejected ps
      then \<exists>k. (\<forall>j<k. rejected (candidate ranges W n rg (last ps) j))
            \<and> \<not> rejected (candidate ranges W n rg (last ps) k)
            \<and> ps' = candidate ranges W n rg (last ps) k
            \<and> rg' = rg\<lparr>pos := pos rg + n * Suc k\<rparr>
      else ps' = ps \<and> rg' = rg)"
  proof (cases "rejected ps")
    case False
    with body show ?thesis by auto
  next
    case True
    obtain r rg1 where a: "assign_draws ranges W [0..<n] ps rg = (r, rg1)"
      by (cases "assign_draws ranges W [0..<n] ps rg") auto
    show ?thesis
    proof (cases r)
      case (Inl e)
      with body True a show ?thesis by auto
    next
      case (Inr ps1)
      with body True a have call: "f ranges W n ps1 rg1 = Some y" by simp
      show ?thesis
      proof (intro allI impI)
        fix ps' rg'
        assume y: "y = (Inr ps', rg')" and len: "length ps = Suc n"
        from assign_draws_candidate a Inr len
        have ps1: "ps1 = candidate ranges W n rg (last ps) 0" and rg1: "rg1 = rg\<lparr>pos := pos rg + n\<rparr>"
          by blast+
        have len1: "length ps1 = Suc n" and last1: "last ps1 = last ps"
          using ps1 by (simp_all add: length_candidate last_candidate)
        from IH[OF call] y len1
        have ih: "if rejected ps1
          then \<exists>k. (\<forall>j<k. rejected (candidate ranges W n rg1 (last ps1) j))
            \<and> \<not> rejected (candidate ranges W n rg1 (last ps1) k)
            \<and> ps' = candidate ranges W n rg1 (last ps1) k
            \<and> rg' = rg1\<lparr>pos := pos rg1 + n * Suc k\<rparr>
          else ps' = ps1 \<and> rg' = rg1" by blast
        have "\<exists>k. (\<forall>j<k. rejected (candidate ranges W n rg (last ps) j))
            \<and> \<not> rejected (candidate ranges W n rg (last ps) k)
            \<and> ps' = candidate ranges W n rg (last ps) k
            \<and> rg' = rg\<lparr>pos := pos rg + n * Suc k\<rparr>"
        proof (cases "rejected ps1")
          case False
          with ih have "ps' = ps1" "rg' = rg1" by simp_all
          with False ps1 rg1 show ?thesis
            by (intro exI[of _ 0]) simp
        next
          case rej: True
          with ih obtain k where k: "\<forall>j<k. rejected (candidate ranges W n rg1 (last ps1) j)"
            "\<not> rejected (candidate ranges W n rg1 (last ps1) k)"
            "ps' = candidate ranges W n rg1 (last ps1) k"
            "rg' = rg1\<lparr>pos := pos rg1 + n * Suc k\<rparr>" by auto
          have shift: "candidate ranges W n rg1 (last ps1) j = candidate ranges W n rg (last ps) (Suc j)" for j
            using candidate_shift[of ranges W n rg "last ps" j] rg1 last1 by simp
          have "\<forall>j<Suc k. rejected (candidate ranges W n rg (last ps) j)"
          proof (intro allI impI)
            fix j assume "j < Suc k"
            show "rejected (candidate ranges W n rg (last ps) j)"
            proof (cases j)
              case 0
              with rej ps1 show ?thesis by simp
            next
              case (Suc j')
              with \<open>j < Suc k\<close> k(1) shift show ?thesis by simp
            qed
          qed
          moreover have "\<not> rejected (candidate ranges W n rg (last ps) (Suc k))"
            using k(2) shift by simp
          moreover have "ps' = candidate ranges W n rg (last ps) (Suc k)"
            using k(3) shift by simp
          moreover have "rg' = rg\<lparr>pos := pos rg + n * Suc (Suc k)\<rparr>"
            using k(4) rg1 by (simp add: algebra_simps)
          ultimately show ?thesis by blast
        qed
        with True show "if rejected ps
          then \<exists>k. (\<forall>j<k. rejected (candidate ranges W n rg (last ps) j))
            \<and> \<not> rejected (candidate ranges W n rg (last ps) k)
            \<and> ps' = candidate ranges W n rg (last ps) k
            \<and> rg' = rg\<lparr>pos := pos rg + n * Suc k\<rparr>
          else ps' = ps \<and> rg' = rg" by simp
      qed
    qed
  qed
qed

lemma stevens_loop_accepts:
  assumes "stevens_loop ranges W n ps rg = Some (Inr ps', rg')" and "length ps = Suc n"
  shows "\<not> rejected ps' \<and> length ps' = Suc n \<and> last ps' = last ps"
proof (cases "rejected ps")
  case True
  with stevens_loop_char[OF assms(1)] assms(2) show ?thesis
    by (auto simp: length_candidate last_candidate)
next
  case False
  with stevens_loop_char[OF assms(1)] assms(2) show ?thesis by auto
qed

lemma generate_random_stevens_loop:
  assumes "point_group td = ''C4v'' \<and> n = 5 \<or> point_group td = ''D3h'' \<and> n = 4"
    and "generate_random_stevens td ranges W_sign rg = Some (Inr ps, rg')"
  shows "\<exists>ps0 ps1 rg1. length ps0 = Suc n \<and> rejected ps0 \<and> last ps0 = 0
           \<and> stevens_loop ranges W_sign n ps0 rg = Some (Inr ps1, rg1)
           \<and> ps = ps1[n := 2 * draws rg1 (pos rg1) - 1] \<and> rg' = rg1\<lparr>pos := Suc (pos rg1)\<rparr>"
  using assms(1)
proof
  assume a: "point_group td = ''C4v'' \<and> n = 5"
  with assms(2) obtain ps1 rg1 where
    "stevens_loop ranges W_sign 5 [1, 1, 1, 1, 1, 0] rg = Some (Inr ps1, rg1)"
    "ps = ps1[5 := 2 * draws rg1 (pos rg1) - 1]" "rg' = rg1\<lparr>pos := Suc (pos rg1)\<rparr>"
    by (auto simp: generate_random_stevens_def random_def split: option.splits sum.splits prod.splits)
  moreover have "length [1, 1, 1, 1, 1, 0 :: real] = Suc 5" "rejected [1, 1, 1, 1, 1, 0]"
    "last [1, 1, 1, 1, 1, 0 :: real] = 0"
    by (simp_all add: rejected_def)
  ultimately show ?thesis using a by blast
next
  assume a: "point_group td = ''D3h'' \<and> n = 4"
  with assms(2) obtain ps1 rg1 where
    "stevens_loop ranges W_sign 4 [1, 1, 1, 1, 0] rg = Some (Inr ps1, rg1)"
    "ps = ps1[4 := 2 * draws rg1 (pos rg1) - 1]" "rg' = rg1\<lparr>pos := Suc (pos rg1)\<rparr>"
    by (auto simp: generate_random_stevens_def random_def split: option.splits sum.splits prod.splits)
  moreover have "length [1, 1, 1, 1, 0 :: real] = Suc 4" "rejected [1, 1, 1, 1, 0]"
    "last [1, 1, 1, 1, 0 :: real] = 0"
    by (simp_all add: rejected_def)
  ultimately show ?thesis using a by blast
qed





text \<open>Over the reals the loop enforces the bound on the interior entries: it is left only when
  the condition is false, and the assignment after the loop changes the last entry only.\<close>

lemma interior_bound_over_the_reals:
  assumes "point_group td = ''C4v'' \<or> point_group td = ''D3h''"
    and "generate_random_stevens td ranges W_sign rg = Some (Inr ps, rg')"
  shows "sum_list (map abs (butlast (tl ps))) \<le> 1"
proof -
  from assms(1) obtain n :: nat where
    n: "point_group td = ''C4v'' \<and> n = 5 \<or> point_group td = ''D3h'' \<and> n = 4" by auto
  from generate_random_stevens_loop[OF n assms(2)] obtain ps0 ps1 rg1 u where
    len0: "length ps0 = Suc n"
    and loop: "stevens_loop ranges W_sign n ps0 rg = Some (Inr ps1, rg1)"
    and ps: "ps = ps1[n := u]"
    by blast
  from stevens_loop_accepts[OF loop len0]
  have acc: "\<not> rejected ps1" and len1: "length ps1 = Suc n" by simp_all
  from n have n1: "1 \<le> n" by auto
  have "butlast (tl ps) = butlast (tl ps1)"
  proof (rule nth_equalityI)
    show "length (butlast (tl ps)) = length (butlast (tl ps1))" using ps by simp
  next
    fix i assume "i < length (butlast (tl ps))"
    then have "i < n - 1" using ps len1 by simp
    then show "butlast (tl ps) ! i = butlast (tl ps1) ! i"
      using ps len1 by (simp add: nth_butlast nth_tl)
  qed
  moreover have "sum_list (map abs (butlast (tl ps1))) = sum_list (map abs ps1) - \<bar>ps1 ! 0\<bar> - \<bar>last ps1\<bar>"
    using interior_sum[of ps1] len1 n1 by simp
  ultimately show ?thesis using acc by (simp add: rejected_def)
qed

text \<open>The same condition in float64: an exact value within one binade is rounded to itself,
  and \<open>7/8\<close> added to \<open>2^59\<close> is rounded away (the spacing of float64 numbers at \<open>2^59\<close> is
  \<open>128\<close>).\<close>

lemma fl64_binade:
  assumes "2 ^ n \<le> x" and "x < 2 ^ Suc n"
  shows "fl64 x = 2 powr (real n - 52) * of_int (round_even (x / 2 powr (real n - 52)))"
proof -
  have pos: "0 < x" using assms(1) by (meson less_le_trans zero_less_numeral zero_less_power)
  have "\<lfloor>log 2 x\<rfloor> = int n"
    using pos assms by (subst floor_log_eq_powr_iff) (simp_all add: powr_realpow powr_add)
  with pos show ?thesis by (simp add: fl64_def)
qed

lemma fl64_absorb:
  "fl64 (2 ^ 59 + 7/8) = 2 ^ 59"
proof -
  have a: "(2::real) ^ 59 \<le> 2 ^ 59 + 7/8" and b: "(2::real) ^ 59 + 7/8 < 2 ^ Suc 59" by simp_all
  have u: "2 powr (real 59 - 52) = (128::real)"
    by (simp add: powr_numeral)
  have q: "(2 ^ 59 + 7/8) / (128::real) = 2 ^ 52 + 7/1024" by simp
  have f: "\<lfloor>(2::real) ^ 52 + 7/1024\<rfloor> = 2 ^ 52"
    by (rule floor_unique) simp_all
  have r: "round_even (2 ^ 52 + 7/1024) = 2 ^ 52"
    unfolding round_even_def f by simp
  show ?thesis unfolding fl64_binade[OF a b] u q r by simp
qed

lemma fl64_pow: "fl64 (2 ^ 59) = 2 ^ 59"
proof -
  have a: "(2::real) ^ 59 \<le> 2 ^ 59" and b: "(2::real) ^ 59 < 2 ^ Suc 59" by simp_all
  have u: "2 powr (real 59 - 52) = (128::real)"
    by (simp add: powr_numeral)
  have q: "(2 ^ 59) / (128::real) = 2 ^ 52" by simp
  have r: "round_even (2 ^ 52) = 2 ^ 52"
    unfolding round_even_def by simp
  show ?thesis unfolding fl64_binade[OF a b] u q r by simp
qed

lemma absorbed_not_rejected: "\<not> rejected_float64 [2 ^ 59, 7/8, 7/8, 7/8, 7/8, 0]"
proof -
  have m: "map abs [2 ^ 59, 7/8, 7/8, 7/8, 7/8, 0 :: real] = [2 ^ 59, 7/8, 7/8, 7/8, 7/8, 0]"
    by simp
  have s: "fsum64 [2 ^ 59, 7/8, 7/8, 7/8, 7/8, 0] = 2 ^ 59"
    unfolding fsum64_def
    by (simp only: foldl_Cons foldl_Nil add_0_left add_0_right fl64_pow fl64_absorb)
  have z: "fl64 0 = 0" by (simp add: fl64_def)
  have "fl64 (fl64 (fsum64 (map abs [2 ^ 59, 7/8, 7/8, 7/8, 7/8, 0]) - \<bar>[2 ^ 59, 7/8, 7/8, 7/8, 7/8, 0 :: real] ! 0\<bar>)
          - \<bar>last [2 ^ 59, 7/8, 7/8, 7/8, 7/8, 0 :: real]\<bar>) = 0"
    unfolding m s by (simp add: z)
  then show ?thesis unfolding rejected_float64_def by simp
qed


lemma fl64_exact:
  assumes "2 ^ n \<le> x" and "x < 2 ^ Suc n" and "x * 2 ^ 52 / 2 ^ n = of_int k"
  shows "fl64 x = x"
proof -
  have u: "2 powr (real n - 52) = 2 ^ n / (2 ^ 52 :: real)"
    by (simp add: powr_diff powr_realpow)
  have q: "x / (2 ^ n / 2 ^ 52) = of_int k" using assms(3) by (simp add: field_simps)
  have r: "round_even (of_int k) = k" by (simp add: round_even_def)
  have "fl64 x = 2 ^ n / 2 ^ 52 * of_int k"
    unfolding fl64_binade[OF assms(1,2)] u q r ..
  also have "\<dots> = x" using assms(3) by (simp add: field_simps)
  finally show ?thesis .
qed

lemma fl64_small:
  "fl64 1 = 1" "fl64 2 = 2" "fl64 3 = 3" "fl64 4 = 4" "fl64 5 = 5"
proof -
  show "fl64 1 = 1" by (rule fl64_exact[of 0 _ "2 ^ 52"]) simp_all
  show "fl64 2 = 2" by (rule fl64_exact[of 1 _ "2 ^ 52"]) simp_all
  show "fl64 3 = 3" by (rule fl64_exact[of 1 _ "3 * 2 ^ 51"]) simp_all
  show "fl64 4 = 4" by (rule fl64_exact[of 2 _ "2 ^ 52"]) simp_all
  show "fl64 5 = 5" by (rule fl64_exact[of 2 _ "5 * 2 ^ 50"]) simp_all
qed

lemma initial_rejected_float64: "rejected_float64 [1, 1, 1, 1, 1, 0]"
proof -
  have s: "fsum64 [1, 1, 1, 1, 1, 0] = 5"
    unfolding fsum64_def by (simp add: fl64_small)
  have m: "map abs [1, 1, 1, 1, 1, 0 :: real] = [1, 1, 1, 1, 1, 0]" by simp
  show ?thesis unfolding rejected_float64_def m s by (simp add: fl64_small)
qed

lemma absorb_first_pass:
  "assign_draws absorb_ranges 1 [0..<5] [1, 1, 1, 1, 1, 0] absorb_rng
     = (Inr [2 ^ 59, 7/8, 7/8, 7/8, 7/8, 0], absorb_rng\<lparr>pos := 5\<rparr>)"
  by (simp add: upt_conv_Cons draw_uniform_def range_row_def random_def absorb_ranges_def
      absorb_rng_def absorb_draws_def)

lemma absorb_loop:
  "stevens_loop_float64 absorb_ranges 1 5 [1, 1, 1, 1, 1, 0] absorb_rng
     = Some (Inr [2 ^ 59, 7/8, 7/8, 7/8, 7/8, 0], absorb_rng\<lparr>pos := 5\<rparr>)"
proof -
  have "stevens_loop_float64 absorb_ranges 1 5 [2 ^ 59, 7/8, 7/8, 7/8, 7/8, 0] (absorb_rng\<lparr>pos := 5\<rparr>)
     = Some (Inr [2 ^ 59, 7/8, 7/8, 7/8, 7/8, 0], absorb_rng\<lparr>pos := 5\<rparr>)"
    by (subst stevens_loop_float64.simps) (simp only: absorbed_not_rejected if_False)
  then show ?thesis
    by (subst stevens_loop_float64.simps)
      (simp only: initial_rejected_float64 if_True absorb_first_pass prod.case sum.case)
qed

text \<open>
  Claim C2. For C4v and D3h every parameter vector that \<open>generate_random_stevens\<close> returns
  should have interior entries (all but the first and the last) whose absolute values sum
  to at most 1. The loop condition aims at this bound and over the reals it enforces it,
  but the source computes the interior sum in float64 as the total sum minus the first and
  the last entry, and next to a large leading entry the interior entries are absorbed by
  rounding. In the run below the first candidate is \<open>[2^59, 0.875, 0.875, 0.875, 0.875, 0]\<close>:
  the float64 value of the condition's left side is \<open>0\<close>, the loop is left, and the vector
  returned has interior sum \<open>3.5 > 1\<close>.
\<close>

theorem float64_test_accepts_interior_sum_above_one:
  "generate_random_stevens_float64 example_td absorb_ranges 1 absorb_rng
     = Some (Inr [2 ^ 59, 7/8, 7/8, 7/8, 7/8, 0], absorb_rng\<lparr>pos := 6\<rparr>)
   \<and> sum_list (map abs (butlast (tl [2 ^ 59, 7/8, 7/8, 7/8, 7/8, 0 :: real]))) = 7/2
   \<and> \<not> (7/2 \<le> (1::real))"
proof -
  have g: "generate_random_stevens_float64 example_td absorb_ranges 1 absorb_rng
     = Some (Inr [2 ^ 59, 7/8, 7/8, 7/8, 7/8, 0], absorb_rng\<lparr>pos := 6\<rparr>)"
    unfolding generate_random_stevens_float64_def absorb_loop
    by (simp add: example_td_def random_def absorb_rng_def absorb_draws_def)
  have s: "sum_list (map abs (butlast (tl [2 ^ 59, 7/8, 7/8, 7/8, 7/8, 0 :: real]))) = 7/2"
    by simp
  from g s show ?thesis by simp
qed

text \<open>
  Claim C8. For a point group tag other than \<open>'Oh'\<close>, \<open>'C4v'\<close> and \<open>'D3h'\<close>,
  \<open>generate_random_stevens\<close> raises the unsupported-point-group error (a \<open>ValueError\<close> in
  the source) and the generator is left as it was: no draw has been consumed.
\<close>

theorem generate_random_stevens_unsupported_group:
  assumes "point_group td \<notin> {''Oh'', ''C4v'', ''D3h''}"
  shows "generate_random_stevens td ranges W_sign rg
       = Some (Inl (ValueError ''This point group is not implemented.''), rg)"
  using assms by (simp add: generate_random_stevens_def)

theorem generate_random_stevens_unsupported_group_witness:
  "point_group (example_td\<lparr>point_group := ''Td''\<rparr>) \<notin> {''Oh'', ''C4v'', ''D3h''}
   \<and> generate_random_stevens (example_td\<lparr>point_group := ''Td''\<rparr>) example_ranges (-1) example_rng
       = Some (Inl (ValueError ''This point group is not implemented.''), example_rng)"
proof -
  have pg: "point_group (example_td\<lparr>point_group := ''Td''\<rparr>) \<notin> {''Oh'', ''C4v'', ''D3h''}"
    by simp
  from generate_random_stevens_unsupported_group [OF pg] pg show ?thesis by blast
qed




section \<open>Properties of \<open>specific_heat\<close>\<close>

lemma linspace_linear_grid:
  assumes "0 \<le> num"
  shows "linspace a b num = Inr (map (linear_grid a b (nat num)) [0..<nat num])"
proof -
  have "(if 1 < nat num \<and> i = nat num - 1 then b
         else if 1 < nat num then real i * ((b - a) / real (nat num - 1)) + a
         else real i * (b - a) + a) = linear_grid a b (nat num) i" if "i < nat num" for i
  proof (cases "1 < nat num")
    case True
    then have nz: "real (nat num - Suc 0) \<noteq> 0" and n1: "\<not> nat num \<le> Suc 0" by simp_all
    show ?thesis
    proof (cases "i = nat num - 1")
      case True
      with \<open>1 < nat num\<close> show ?thesis using nz by (simp add: linear_grid_def n1)
    next
      case False
      with \<open>1 < nat num\<close> show ?thesis by (simp add: linear_grid_def n1 algebra_simps)
    qed
  next
    case False
    with that have "i = 0" by simp
    with False show ?thesis by (simp add: linear_grid_def)
  qed
  then have "map (\<lambda>i. if 1 < nat num \<and> i = nat num - 1 then b
         else if 1 < nat num then real i * ((b - a) / real (nat num - 1)) + a
         else real i * (b - a) + a) [0..<nat num] = map (linear_grid a b (nat num)) [0..<nat num]"
    by (intro map_cong) auto
  with assms show ?thesis by (simp add: linspace_def)
qed

lemma linear_grid_ge:
  assumes "a \<le> b"
  shows "a \<le> linear_grid a b n i"
  using assms by (simp add: linear_grid_def)

lemma shift_energies_sorted:
  assumes "sorted evs" and "evs \<noteq> []"
  shows "shift_energies evs = Inr (zero_referenced evs)"
proof -
  from assms(2) obtain e0 es where evs: "evs = e0 # es" by (cases evs) auto
  with assms(1) have "\<forall>e\<in>set evs. e0 \<le> e" by auto
  then have "Min (set evs) = e0" using evs by (intro Min_eqI) auto
  with evs show ?thesis by (simp add: shift_energies_def zero_referenced_def)
qed

lemma sum_list_nth_lessThan:
  fixes f :: "real \<Rightarrow> real"
  shows "sum_list (map f E) = (\<Sum>j<length E. f (E ! j))"
proof -
  have "sum_list (map f E) = (\<Sum>j = 0..<length (map f E). map f E ! j)"
    by (rule sum_list_sum_nth)
  also have "\<dots> = (\<Sum>j<length E. f (E ! j))"
    by (simp add: atLeast0LessThan)
  finally show ?thesis .
qed

lemma cV_boltzmann:
  "cV E T = 1 / T\<^sup>2 * (boltzmann_average E T (\<lambda>e. e\<^sup>2) - (boltzmann_average E T (\<lambda>e. e))\<^sup>2)"
proof -
  let ?Z = "\<Sum>i<length E. exp (- (E ! i) / T)"
  have Z: "Z_cr E T = ?Z" by (simp add: Z_cr_def sum_list_nth_lessThan)
  have 1: "sum_list (map (\<lambda>e. e\<^sup>2 * exp (- e / T)) E) / ?Z = boltzmann_average E T (\<lambda>e. e\<^sup>2)"
    by (simp add: sum_list_nth_lessThan boltzmann_average_def boltzmann_weight_def
        sum_divide_distrib mult.commute)
  have 2: "sum_list (map (\<lambda>e. e * exp (- e / T) / ?Z) E) = boltzmann_average E T (\<lambda>e. e)"
    by (simp add: sum_list_nth_lessThan boltzmann_average_def boltzmann_weight_def mult.commute)
  show ?thesis unfolding cV_def Z 1 2 ..
qed

text \<open>
  Claim C1. When the eigenvalue routine returns a non-empty ascending spectrum (as
  \<open>eigvalsh\<close> does for a Hermitian matrix) and \<open>0 < T_min \<le> T_max\<close>, \<open>T_steps \<ge> 1\<close>,
  \<open>specific_heat\<close> returns exactly \<open>T_steps\<close> pairs \<open>(T_i, cV_i)\<close>: the \<open>T_i\<close> have constant step
  from \<open>T_min\<close> to \<open>T_max\<close>, and \<open>cV_i = (1/T_i\<^sup>2) * (<E\<^sup>2> - <E>\<^sup>2)\<close>, the averages being
  Boltzmann-weighted over the spectrum shifted so that its minimum is zero. (Over the
  reals; the source computes in floating point.)
\<close>

theorem specific_heat_boltzmann_variance:
  assumes "sorted (eigvalsh ham)" and "eigvalsh ham \<noteq> []"
    and "0 < T_min" and "T_min \<le> T_max" and "1 \<le> T_steps"
  shows "specific_heat eigvalsh ham T_min T_max T_steps =
     Inr (map (\<lambda>i. (linear_grid T_min T_max (nat T_steps) i,
                    Some (1 / (linear_grid T_min T_max (nat T_steps) i)\<^sup>2
                      * (boltzmann_average (zero_referenced (eigvalsh ham))
                            (linear_grid T_min T_max (nat T_steps) i) (\<lambda>e. e\<^sup>2)
                         - (boltzmann_average (zero_referenced (eigvalsh ham))
                            (linear_grid T_min T_max (nat T_steps) i) (\<lambda>e. e))\<^sup>2))))
              [0..<nat T_steps])
     \<and> length [0..<nat T_steps] = nat T_steps
     \<and> linear_grid T_min T_max (nat T_steps) 0 = T_min
     \<and> (1 < T_steps \<longrightarrow> linear_grid T_min T_max (nat T_steps) (nat T_steps - 1) = T_max)"
proof -
  have pos: "linear_grid T_min T_max (nat T_steps) i \<noteq> 0" for i
    using linear_grid_ge[OF assms(4), of "nat T_steps" i] assms(3) by simp
  have "specific_heat eigvalsh ham T_min T_max T_steps =
     Inr (map (\<lambda>t. (t, if t = 0 then None else Some (cV (zero_referenced (eigvalsh ham)) t)))
            (map (linear_grid T_min T_max (nat T_steps)) [0..<nat T_steps]))"
    using assms(5) linspace_linear_grid[of T_steps T_min T_max]
      shift_energies_sorted[OF assms(1,2)]
    by (simp add: specific_heat_def)
  then have 1: "specific_heat eigvalsh ham T_min T_max T_steps =
     Inr (map (\<lambda>i. (linear_grid T_min T_max (nat T_steps) i,
                    Some (1 / (linear_grid T_min T_max (nat T_steps) i)\<^sup>2
                      * (boltzmann_average (zero_referenced (eigvalsh ham))
                            (linear_grid T_min T_max (nat T_steps) i) (\<lambda>e. e\<^sup>2)
                         - (boltzmann_average (zero_referenced (eigvalsh ham))
                            (linear_grid T_min T_max (nat T_steps) i) (\<lambda>e. e))\<^sup>2))))
              [0..<nat T_steps])"
    by (simp add: pos cV_boltzmann o_def)
  have 2: "linear_grid T_min T_max (nat T_steps) 0 = T_min"
    by (simp add: linear_grid_def)
  have 3: "linear_grid T_min T_max (nat T_steps) (nat T_steps - 1) = T_max" if "1 < T_steps"
  proof -
    from that have "real (nat T_steps - 1) \<noteq> 0" "\<not> nat T_steps \<le> 1" by simp_all
    then show ?thesis by (simp add: linear_grid_def)
  qed
  from 1 2 3 show ?thesis by simp
qed

theorem specific_heat_boltzmann_variance_witness:
  "sorted ((\<lambda>_. [1, 3 :: real]) [[1, 0], [0, 3 :: complex]]) \<and> (0::real) < 2 \<and> (2::real) \<le> 300 \<and> (1::int) \<le> 3
   \<and> specific_heat (\<lambda>_. [1, 3]) [[1, 0], [0, 3]] 2 300 3 =
     Inr (map (\<lambda>i. (linear_grid 2 300 (nat 3) i,
                    Some (1 / (linear_grid 2 300 (nat 3) i)\<^sup>2
                      * (boltzmann_average (zero_referenced [1, 3])
                            (linear_grid 2 300 (nat 3) i) (\<lambda>e. e\<^sup>2)
                         - (boltzmann_average (zero_referenced [1, 3])
                            (linear_grid 2 300 (nat 3) i) (\<lambda>e. e))\<^sup>2))))
              [0..<nat 3])
   \<and> map (linear_grid 2 300 (nat 3)) [0..<nat 3] = [2, 151, 300]
   \<and> zero_referenced [1, 3] = [0, 2]"
proof -
  have g: "map (linear_grid 2 300 (nat 3)) [0..<nat 3] = [2, 151, 300]"
    by (simp add: linear_grid_def upt_conv_Cons)
  have z: "zero_referenced [1, 3] = [0, 2]" by (simp add: zero_referenced_def)
  from specific_heat_boltzmann_variance [of "\<lambda>_. [1, 3]" "[[1, 0], [0, 3]]" 2 300 3] g z
  show ?thesis by simp
qed

section \<open>Matrices and the entries of the operators\<close>

lemma is_squareI:
  assumes "length A = d" and "\<And>r. r < d \<Longrightarrow> length (A ! r) = d"
  shows "is_square d A"
  unfolding is_square_def using assms by (auto simp: in_set_conv_nth)

lemma is_square_row: "is_square d A \<Longrightarrow> r < d \<Longrightarrow> length (A ! r) = d"
  by (simp add: is_square_def)

lemma is_square_length: "is_square d A \<Longrightarrow> length A = d"
  by (simp add: is_square_def)

lemma square_eqI:
  assumes "is_square d A" and "is_square d B"
    and "\<And>r c. r < d \<Longrightarrow> c < d \<Longrightarrow> A ! r ! c = B ! r ! c"
  shows "A = B"
proof (rule nth_equalityI)
  show "length A = length B" using assms(1,2) by (simp add: is_square_def)
next
  fix r assume "r < length A"
  then have r: "r < d" using assms(1) by (simp add: is_square_def)
  show "A ! r = B ! r"
  proof (rule nth_equalityI)
    show "length (A ! r) = length (B ! r)"
      using r assms(1,2) by (simp add: is_square_row)
  next
    fix c assume "c < length (A ! r)"
    then have "c < d" using r assms(1) by (simp add: is_square_row)
    with r assms(3) show "A ! r ! c = B ! r ! c" by simp
  qed
qed

lemma np_diag_square: "is_square (length v + nat \<bar>k\<bar>) (np_diag v k)"
  by (rule is_squareI) (simp_all add: np_diag_def Let_def)

lemma np_diag_nth:
  assumes "r < length v + nat \<bar>k\<bar>" and "c < length v + nat \<bar>k\<bar>"
  shows "np_diag v k ! r ! c = (if int c - int r = k then v ! (if 0 \<le> k then r else c) else 0)"
  using assms by (simp add: np_diag_def Let_def)

lemma mat_add_square:
  assumes "is_square d A" and "is_square d B"
  shows "is_square d (mat_add A B)"
  using assms by (intro is_squareI) (simp_all add: mat_add_def is_square_def)

lemma mat_add_nth:
  assumes "is_square d A" and "is_square d B" and "r < d" and "c < d"
  shows "mat_add A B ! r ! c = A ! r ! c + B ! r ! c"
  using assms by (simp add: mat_add_def is_square_def)

lemma mat_sub_square:
  assumes "is_square d A" and "is_square d B"
  shows "is_square d (mat_sub A B)"
  using assms by (intro is_squareI) (simp_all add: mat_sub_def is_square_def)

lemma mat_sub_nth:
  assumes "is_square d A" and "is_square d B" and "r < d" and "c < d"
  shows "mat_sub A B ! r ! c = A ! r ! c - B ! r ! c"
  using assms by (simp add: mat_sub_def is_square_def)

lemma map_map_square:
  assumes "is_square d A"
  shows "is_square d (map (map f) A)"
  using assms by (intro is_squareI) (simp_all add: is_square_def)

lemma map_map_nth:
  assumes "is_square d A" and "r < d" and "c < d"
  shows "map (map f) A ! r ! c = f (A ! r ! c)"
  using assms by (simp add: is_square_def)

lemma mat_scale_square: "is_square d A \<Longrightarrow> is_square d (mat_scale a A)"
  unfolding mat_scale_def by (rule map_map_square)

lemma mat_scale_nth:
  "is_square d A \<Longrightarrow> r < d \<Longrightarrow> c < d \<Longrightarrow> mat_scale a A ! r ! c = a * A ! r ! c"
  unfolding mat_scale_def by (rule map_map_nth)

lemma ncols_square: "is_square d A \<Longrightarrow> ncols A = d"
  by (cases A) (auto simp: ncols_def is_square_def)

lemma dot_sum:
  assumes "length u = d" and "length v = d"
  shows "dot u v = (\<Sum>k<d. u ! k * v ! k)"
proof -
  have "dot u v = (\<Sum>k = 0..<length (map2 (*) u v). map2 (*) u v ! k)"
    unfolding dot_def by (rule sum_list_sum_nth)
  also have "\<dots> = (\<Sum>k<d. u ! k * v ! k)"
    using assms by (intro sum.cong) (auto simp: atLeast0LessThan)
  finally show ?thesis .
qed

lemma mat_mul_square:
  assumes "is_square d A" and "is_square d B"
  shows "is_square d (mat_mul A B)"
  using assms by (intro is_squareI) (simp_all add: mat_mul_def ncols_square is_square_length)

lemma mat_mul_nth:
  assumes "is_square d A" and "is_square d B" and "r < d" and "c < d"
  shows "mat_mul A B ! r ! c = fprod d (\<lambda>r c. A ! r ! c) (\<lambda>r c. B ! r ! c) r c"
proof -
  have "mat_mul A B ! r ! c = dot (A ! r) (column B c)"
    using assms by (simp add: mat_mul_def ncols_square is_square_length)
  also have "\<dots> = (\<Sum>k<d. A ! r ! k * column B c ! k)"
    using assms by (intro dot_sum) (simp_all add: is_square_row column_def is_square_length)
  also have "\<dots> = (\<Sum>k<d. A ! r ! k * B ! k ! c)"
    using assms by (intro sum.cong) (simp_all add: column_def is_square_length)
  finally show ?thesis by (simp add: fprod_def)
qed

lemma fprod_cong:
  assumes "\<And>k. k < d \<Longrightarrow> A r k = A' r k" and "\<And>k. k < d \<Longrightarrow> B k c = B' k c"
  shows "fprod d A B r c = fprod d A' B' r c"
  unfolding fprod_def using assms by (intro sum.cong) simp_all

lemma commutator_square:
  assumes "is_square d A" and "is_square d B"
  shows "is_square d (commutator A B)"
  unfolding commutator_def using assms by (intro mat_sub_square mat_mul_square)

lemma commutator_nth:
  assumes "is_square d A" and "is_square d B" and "r < d" and "c < d"
  shows "commutator A B ! r ! c
     = fprod d (\<lambda>r c. A ! r ! c) (\<lambda>r c. B ! r ! c) r c - fprod d (\<lambda>r c. B ! r ! c) (\<lambda>r c. A ! r ! c) r c"
proof -
  have "commutator A B ! r ! c = mat_mul A B ! r ! c - mat_mul B A ! r ! c"
    unfolding commutator_def
    using assms by (intro mat_sub_nth[of d] mat_mul_square)
  then show ?thesis using assms by (simp add: mat_mul_nth[of d])
qed

lemma length_arange: "length (arange x) = nat \<lceil>x\<rceil>"
  by (simp add: arange_def)

lemma arange_nth: "k < nat \<lceil>x\<rceil> \<Longrightarrow> arange x ! k = real k"
  by (simp add: arange_def)

lemma dim_Jz:
  assumes "0 \<le> J td"
  shows "nat \<lceil>2 * J td + 1\<rceil> = Suc (nat \<lceil>2 * J td\<rceil>)"
proof -
  have "0 \<le> \<lceil>2 * J td\<rceil>" using assms by (simp add: ceiling_le_iff le_ceiling_iff)
  then show ?thesis by (simp add: ceiling_add_one nat_add_distrib)
qed

lemma dim_Jz':
  assumes "0 \<le> J td"
  shows "nat (\<lceil>2 * J td\<rceil> + 1) = Suc (nat \<lceil>2 * J td\<rceil>)"
  using dim_Jz[OF assms] by (simp add: ceiling_add_one)

lemma Jz_square:
  assumes "0 \<le> J td"
  shows "is_square (Suc (nat \<lceil>2 * J td\<rceil>)) (Jz_op td)"
  using np_diag_square[of "map (\<lambda>x. complex_of_real (x - J td)) (arange (2 * J td + 1))" 0]
  by (simp add: Jz_op_def length_arange dim_Jz'[OF assms])

lemma Jz_nth:
  assumes "0 \<le> J td" and "r < Suc (nat \<lceil>2 * J td\<rceil>)" and "c < Suc (nat \<lceil>2 * J td\<rceil>)"
  shows "Jz_op td ! r ! c = (if r = c then complex_of_real (real r - J td) else 0)"
proof -
  let ?v = "map (\<lambda>x. complex_of_real (x - J td)) (arange (2 * J td + 1))"
  have len: "length ?v = Suc (nat \<lceil>2 * J td\<rceil>)"
    by (simp add: length_arange dim_Jz'[OF assms(1)])
  have "r < nat \<lceil>2 * J td + 1\<rceil>" using assms(2) dim_Jz[OF assms(1)] by simp
  then have v: "?v ! r = complex_of_real (real r - J td)"
    by (simp add: length_arange arange_nth del: of_real_diff)
  have "np_diag ?v 0 ! r ! c = (if int c - int r = 0 then ?v ! (if (0::int) \<le> 0 then r else c) else 0)"
    using assms(2,3) len by (intro np_diag_nth) simp_all
  then have "np_diag ?v 0 ! r ! c = (if r = c then ?v ! r else 0)"
    by (simp only: if_True order_refl) auto
  then show ?thesis unfolding Jz_op_def v .
qed

lemma Jplus_square: "is_square (Suc (nat \<lceil>2 * J td\<rceil>)) (Jplus_op td)"
  using np_diag_square[of "map (\<lambda>x. complex_of_real (sqrt ((2 * J td - x) * (x + 1)))) (arange (2 * J td))" "- 1"]
  by (simp add: Jplus_op_def length_arange)

lemma Jminus_square: "is_square (Suc (nat \<lceil>2 * J td\<rceil>)) (Jminus_op td)"
  using np_diag_square[of "map (\<lambda>x. complex_of_real (sqrt ((2 * J td - x) * (x + 1)))) (arange (2 * J td))" 1]
  by (simp add: Jminus_op_def length_arange)

lemma Jplus_nth:
  assumes "r < Suc (nat \<lceil>2 * J td\<rceil>)" and "c < Suc (nat \<lceil>2 * J td\<rceil>)"
  shows "Jplus_op td ! r ! c = (if r = Suc c then ladder td c else 0)"
proof (cases "r = Suc c")
  case True
  with assms have "c < nat \<lceil>2 * J td\<rceil>" by simp
  with True assms show ?thesis
    by (simp add: Jplus_op_def np_diag_nth length_arange arange_nth ladder_def)
next
  case False
  then have "int c - int r \<noteq> - 1" by linarith
  with False assms show ?thesis
    by (simp add: Jplus_op_def np_diag_nth length_arange)
qed

lemma Jminus_nth:
  assumes "r < Suc (nat \<lceil>2 * J td\<rceil>)" and "c < Suc (nat \<lceil>2 * J td\<rceil>)"
  shows "Jminus_op td ! r ! c = (if c = Suc r then ladder td r else 0)"
proof (cases "c = Suc r")
  case True
  with assms have "r < nat \<lceil>2 * J td\<rceil>" by simp
  with True assms show ?thesis
    by (simp add: Jminus_op_def np_diag_nth length_arange arange_nth ladder_def)
next
  case False
  then have "int c - int r \<noteq> 1" by linarith
  with False assms show ?thesis
    by (simp add: Jminus_op_def np_diag_nth length_arange)
qed

lemma Jx_square: "is_square (Suc (nat \<lceil>2 * J td\<rceil>)) (Jx_op td)"
  unfolding Jx_op_def by (intro map_map_square mat_add_square Jplus_square Jminus_square)

lemma Jy_square: "is_square (Suc (nat \<lceil>2 * J td\<rceil>)) (Jy_op td)"
  unfolding Jy_op_def by (intro mat_scale_square mat_sub_square Jplus_square Jminus_square)

lemma Jx_nth:
  assumes "r < Suc (nat \<lceil>2 * J td\<rceil>)" and "c < Suc (nat \<lceil>2 * J td\<rceil>)"
  shows "Jx_op td ! r ! c = (Jplus_op td ! r ! c + Jminus_op td ! r ! c) / 2"
proof -
  have "Jx_op td ! r ! c = (mat_add (Jplus_op td) (Jminus_op td) ! r ! c) / 2"
    unfolding Jx_op_def using assms
    by (intro map_map_nth[of "Suc (nat \<lceil>2 * J td\<rceil>)"] mat_add_square Jplus_square Jminus_square)
  also have "mat_add (Jplus_op td) (Jminus_op td) ! r ! c = Jplus_op td ! r ! c + Jminus_op td ! r ! c"
    using assms by (intro mat_add_nth[of "Suc (nat \<lceil>2 * J td\<rceil>)"] Jplus_square Jminus_square)
  finally show ?thesis .
qed

lemma Jy_nth:
  assumes "r < Suc (nat \<lceil>2 * J td\<rceil>)" and "c < Suc (nat \<lceil>2 * J td\<rceil>)"
  shows "Jy_op td ! r ! c = (- \<i> / 2) * (Jplus_op td ! r ! c - Jminus_op td ! r ! c)"
proof -
  have "Jy_op td ! r ! c = (- \<i> / 2) * (mat_sub (Jplus_op td) (Jminus_op td) ! r ! c)"
    unfolding Jy_op_def using assms
    by (intro mat_scale_nth[of "Suc (nat \<lceil>2 * J td\<rceil>)"] mat_sub_square Jplus_square Jminus_square)
  also have "mat_sub (Jplus_op td) (Jminus_op td) ! r ! c = Jplus_op td ! r ! c - Jminus_op td ! r ! c"
    using assms by (intro mat_sub_nth[of "Suc (nat \<lceil>2 * J td\<rceil>)"] Jplus_square Jminus_square)
  finally show ?thesis .
qed

text \<open>On matrices of one square shape the broadcasting difference is the entrywise one.\<close>

lemma shape2_square:
  assumes "is_square d A"
  shows "shape2 A = Some (d, d)"
proof (cases A)
  case Nil
  with assms show ?thesis by (simp add: shape2_def is_square_def)
next
  case (Cons row rows)
  with assms show ?thesis by (auto simp: shape2_def is_square_def)
qed

lemma np_sub_square:
  assumes "is_square d A" and "is_square d B"
  shows "np_sub A B = Inr (mat_sub A B)"
proof -
  let ?R = "map (\<lambda>r. map (\<lambda>c. A ! (if d = 1 then 0 else r) ! (if d = 1 then 0 else c)
                                      - B ! (if d = 1 then 0 else r) ! (if d = 1 then 0 else c))
                               [0..<d]) [0..<d]"
  have "np_sub A B = Inr ?R"
    by (simp add: np_sub_def shape2_square[OF assms(1)] shape2_square[OF assms(2)] bdim_def)
  moreover have "?R = mat_sub A B"
  proof (rule square_eqI[of d])
    show "is_square d ?R" by (rule is_squareI) simp_all
    show "is_square d (mat_sub A B)" by (rule mat_sub_square[OF assms])
  next
    fix r c assume rc: "r < d" "c < d"
    then have "?R ! r ! c = A ! r ! c - B ! r ! c" by auto
    with mat_sub_nth[OF assms rc] show "?R ! r ! c = mat_sub A B ! r ! c" by simp
  qed
  ultimately show ?thesis by simp
qed

lemma perturbed_ham_Inr:
  assumes "is_square d hamz" and "is_square d J_op"
  shows "perturbed_ham g hamz J_op B
       = Inr (mat_sub hamz (map (map (\<lambda>x. complex_of_real (g * muB_over_kB) * x * complex_of_real B)) J_op))"
  unfolding perturbed_ham_def using assms by (intro np_sub_square map_map_square)

lemma perturbed_ham_square:
  assumes "is_square d hamz" and "is_square d J_op" and "perturbed_ham g hamz J_op B = Inr H"
  shows "is_square d H"
  using assms(3) unfolding perturbed_ham_Inr[OF assms(1,2)]
  using assms(1,2) by (auto intro!: mat_sub_square map_map_square)

lemma perturbed_ham_nth:
  assumes "is_square d hamz" and "is_square d J_op" and "perturbed_ham g hamz J_op B = Inr H"
    and "r < d" and "c < d"
  shows "H ! r ! c = hamz ! r ! c - complex_of_real (g * muB_over_kB) * J_op ! r ! c * complex_of_real B"
proof -
  let ?f = "\<lambda>x. complex_of_real (g * muB_over_kB) * x * complex_of_real B"
  from assms(3) have H: "H = mat_sub hamz (map (map ?f) J_op)"
    unfolding perturbed_ham_Inr[OF assms(1,2)] by simp
  have "H ! r ! c = hamz ! r ! c - map (map ?f) J_op ! r ! c"
    unfolding H using assms(1,2,4,5) by (intro mat_sub_nth[of d] map_map_square)
  also have "map (map ?f) J_op ! r ! c = ?f (J_op ! r ! c)"
    using assms(2,4,5) by (intro map_map_nth[of d])
  finally show ?thesis .
qed

lemma field_operator_square:
  assumes "field_operator td dirn = Inr (Some J_op)" and "0 \<le> J td"
  shows "is_square (Suc (nat \<lceil>2 * J td\<rceil>)) J_op"
proof -
  from assms(1) have "J_op = mat_add
             (mat_add (mat_scale (complex_of_real (dirn ! 0 / LA_norm dirn)) (Jx_op td))
                      (mat_scale (complex_of_real (dirn ! 1 / LA_norm dirn)) (Jy_op td)))
             (mat_scale (complex_of_real (dirn ! 2 / LA_norm dirn)) (Jz_op td))"
    by (simp add: field_operator_def split: if_splits)
  then show ?thesis
    by (simp only:) (intro mat_add_square mat_scale_square Jx_square Jy_square Jz_square assms(2))
qed

lemma length_Jz_op:
  assumes "0 \<le> J td"
  shows "length (Jz_op td) = Suc (nat \<lceil>2 * J td\<rceil>)"
  using Jz_square[OF assms] by (rule is_square_length)

section \<open>Temperature grids of \<open>specific_heat\<close> and \<open>susceptibility\<close>\<close>

lemma susceptibility_Inr:
  assumes "susceptibility td eigh ham0 dirn B T_min T_max T_steps = Inr chi"
  shows "\<exists>g J_op H es V energies T_array.
      gJLS td = Inr g \<and> linspace T_min T_max T_steps = Inr T_array
    \<and> field_operator td dirn = Inr (Some J_op)
    \<and> perturbed_ham g ham0 J_op B = Inr H
    \<and> eigh H = (es, V) \<and> shift_energies es = Inr energies
    \<and> chi = map (\<lambda>T. (T, if T = 0 \<or> B = 0 then None
                           else Some (Re (mag g J_op energies V T / complex_of_real B)))) T_array"
  using assms unfolding susceptibility_def
  by (simp split: sum.splits option.splits prod.splits)

lemma susceptibility_runs:
  assumes "0 \<le> T_steps" and "perturbed_ham g hamz J_op B = Inr H" and "fst (eigh H) \<noteq> []"
    and "field_operator td dirn = Inr (Some J_op)" and "gJLS td = Inr g"
  shows "\<exists>energies. susceptibility td eigh hamz dirn B T_min T_max T_steps =
     Inr (map (\<lambda>T. (T, if T = 0 \<or> B = 0 then None
                        else Some (Re (mag g J_op energies (snd (eigh H)) T / complex_of_real B))))
            (map (linear_grid T_min T_max (nat T_steps)) [0..<nat T_steps]))"
proof -
  obtain es V where e: "eigh H = (es, V)" by (cases "eigh H") auto
  with assms(3) obtain e0 es' where es: "es = e0 # es'" by (cases es) auto
  then have "shift_energies es = Inr (map (\<lambda>e. e - e0) es)" by (simp add: shift_energies_def)
  with e assms(2,4,5) linspace_linear_grid[OF assms(1), of T_min T_max]
  have "susceptibility td eigh hamz dirn B T_min T_max T_steps =
     Inr (map (\<lambda>T. (T, if T = 0 \<or> B = 0 then None
                        else Some (Re (mag g J_op (map (\<lambda>e. e - e0) es) (snd (eigh H)) T
                                       / complex_of_real B))))
            (map (linear_grid T_min T_max (nat T_steps)) [0..<nat T_steps]))"
    by (simp add: susceptibility_def)
  then show ?thesis by blast
qed

lemma specific_heat_runs:
  assumes "0 \<le> T_steps" and "eigvalsh ham \<noteq> []"
  shows "\<exists>energies. specific_heat eigvalsh ham T_min T_max T_steps =
     Inr (map (\<lambda>t. (t, if t = 0 then None else Some (cV energies t)))
            (map (linear_grid T_min T_max (nat T_steps)) [0..<nat T_steps]))"
proof -
  from assms(2) obtain e0 es' where es: "eigvalsh ham = e0 # es'" by (cases "eigvalsh ham") auto
  then have "shift_energies (eigvalsh ham) = Inr (map (\<lambda>e. e - e0) (eigvalsh ham))"
    by (simp add: shift_energies_def)
  with linspace_linear_grid[OF assms(1), of T_min T_max]
  have "specific_heat eigvalsh ham T_min T_max T_steps =
     Inr (map (\<lambda>t. (t, if t = 0 then None else Some (cV (map (\<lambda>e. e - e0) (eigvalsh ham)) t)))
            (map (linear_grid T_min T_max (nat T_steps)) [0..<nat T_steps]))"
    by (simp add: specific_heat_def)
  then show ?thesis by blast
qed

lemma field_operator_runs:
  assumes "3 \<le> length dirn" and "LA_norm dirn \<noteq> 0"
  shows "\<exists>J_op. field_operator td dirn = Inr (Some J_op)"
  using assms by (simp add: field_operator_def)

lemma gJLS_runs:
  assumes "2 * J td * (J td + 1) \<noteq> 0"
  shows "gJLS td = Inr (1 + (J td * (J td + 1) + S td * (S td + 1) - L td * (L td + 1)) / (2 * J td * (J td + 1)))"
  using assms by (simp add: gJLS_def)

lemma perturbed_ham_runs:
  assumes "0 \<le> J td" and "is_square (length (Jz_op td)) hamz"
    and "field_operator td dirn = Inr (Some J_op)"
  shows "\<exists>H. perturbed_ham g hamz J_op B = Inr H"
proof -
  have "is_square (length (Jz_op td)) J_op"
    unfolding length_Jz_op[OF assms(1)] by (rule field_operator_square[OF assms(3,1)])
  from perturbed_ham_Inr[OF assms(2) this] show ?thesis by blast
qed

lemma example_gJLS: "gJLS example_spin_half = Inr 2"
  by (simp add: gJLS_def example_spin_half_def)

lemma example_field_operator:
  "field_operator example_spin_half [0, 0, 1] =
     Inr (Some (mat_add (mat_add (mat_scale 0 (Jx_op example_spin_half)) (mat_scale 0 (Jy_op example_spin_half)))
                        (mat_scale 1 (Jz_op example_spin_half))))"
  by (simp add: field_operator_def LA_norm_def)

lemma example_dimension: "length (Jz_op example_spin_half) = 2"
proof -
  have "0 \<le> J example_spin_half" by (simp add: example_spin_half_def)
  from length_Jz_op[OF this] show ?thesis by (simp add: example_spin_half_def)
qed

lemma example_ham_square: "is_square (length (Jz_op example_spin_half)) example_ham"
  unfolding example_dimension by (simp add: is_square_def example_ham_def)

lemma example_susceptibility:
  assumes "0 \<le> T_steps"
  shows "\<exists>energies V. susceptibility example_spin_half example_eigh example_ham [0, 0, 1] B T_min T_max T_steps =
     Inr (map (\<lambda>T. (T, if T = 0 \<or> B = 0 then None
                        else Some (Re (mag 2 (mat_add (mat_add (mat_scale 0 (Jx_op example_spin_half)) (mat_scale 0 (Jy_op example_spin_half)))
                        (mat_scale 1 (Jz_op example_spin_half))) energies V T / complex_of_real B))))
            (map (linear_grid T_min T_max (nat T_steps)) [0..<nat T_steps]))"
proof -
  have J0: "0 \<le> J example_spin_half" by (simp add: example_spin_half_def)
  from perturbed_ham_runs[OF J0 example_ham_square example_field_operator]
  obtain H where H: "perturbed_ham 2 example_ham
      (mat_add (mat_add (mat_scale 0 (Jx_op example_spin_half)) (mat_scale 0 (Jy_op example_spin_half)))
                        (mat_scale 1 (Jz_op example_spin_half))) B = Inr H"
    by blast
  have e: "fst (example_eigh H) \<noteq> []" by (simp add: example_eigh_def)
  from susceptibility_runs[where eigh = example_eigh, OF assms H e example_field_operator example_gJLS]
  show ?thesis by blast
qed

text \<open>
  Claim C7, as stated: a request with \<open>T_min \<le> 0\<close> makes \<open>specific_heat\<close> and
  \<open>susceptibility\<close> fail with an invalid-temperature-range error. With \<open>T_min = 0\<close>,
  \<open>T_max = 300\<close> and three steps both return a curve over the grid \<open>0, 150, 300\<close>; no error
  is raised, and the value at \<open>T = 0\<close> is the non-finite result of a floating-point division
  by zero.
\<close>

theorem temperature_range_not_rejected_counterexample:
  "\<not> isl (specific_heat example_eigvalsh example_ham 0 300 3)
   \<and> map fst (projr (specific_heat example_eigvalsh example_ham 0 300 3)) = [0, 150, 300]
   \<and> snd (hd (projr (specific_heat example_eigvalsh example_ham 0 300 3))) = None
   \<and> \<not> isl (susceptibility example_spin_half example_eigh example_ham [0, 0, 1] (1/10000) 0 300 3)
   \<and> map fst (projr (susceptibility example_spin_half example_eigh example_ham [0, 0, 1] (1/10000) 0 300 3))
       = [0, 150, 300]
   \<and> snd (hd (projr (susceptibility example_spin_half example_eigh example_ham [0, 0, 1] (1/10000) 0 300 3)))
       = None"
proof -
  have g: "map (linear_grid 0 300 (nat 3)) [0..<nat 3] = [0, 150, 300]"
    by (simp add: linear_grid_def upt_conv_Cons)
  have l: "linspace 0 300 3 = Inr [0, 150, 300]"
    using linspace_linear_grid[of 3 0 300] g by simp
  have c: "\<not> isl (specific_heat example_eigvalsh example_ham 0 300 3)
   \<and> map fst (projr (specific_heat example_eigvalsh example_ham 0 300 3)) = [0, 150, 300]
   \<and> snd (hd (projr (specific_heat example_eigvalsh example_ham 0 300 3))) = None"
    by (simp add: specific_heat_def l example_eigvalsh_def shift_energies_def)
  have "(0::int) \<le> 3" by simp
  from example_susceptibility[OF this, of "1/10000" 0 300] obtain energies V where
    "susceptibility example_spin_half example_eigh example_ham [0, 0, 1] (1/10000) 0 300 3 =
     Inr (map (\<lambda>T. (T, if T = 0 \<or> (1/10000 :: real) = 0 then None
                        else Some (Re (mag 2 (mat_add (mat_add (mat_scale 0 (Jx_op example_spin_half)) (mat_scale 0 (Jy_op example_spin_half)))
                        (mat_scale 1 (Jz_op example_spin_half))) energies V T / complex_of_real (1/10000)))))
            (map (linear_grid 0 300 (nat 3)) [0..<nat 3]))"
    by blast
  then have s: "susceptibility example_spin_half example_eigh example_ham [0, 0, 1] (1/10000) 0 300 3 =
     Inr (map (\<lambda>T. (T, if T = 0 \<or> (1/10000 :: real) = 0 then None
                        else Some (Re (mag 2 (mat_add (mat_add (mat_scale 0 (Jx_op example_spin_half)) (mat_scale 0 (Jy_op example_spin_half)))
                        (mat_scale 1 (Jz_op example_spin_half))) energies V T / complex_of_real (1/10000)))))
            [0, 150, 300])"
    unfolding g .
  have "\<not> isl (susceptibility example_spin_half example_eigh example_ham [0, 0, 1] (1/10000) 0 300 3)
   \<and> map fst (projr (susceptibility example_spin_half example_eigh example_ham [0, 0, 1] (1/10000) 0 300 3))
       = [0, 150, 300]
   \<and> snd (hd (projr (susceptibility example_spin_half example_eigh example_ham [0, 0, 1] (1/10000) 0 300 3)))
       = None"
    unfolding s by simp
  with c show ?thesis by blast
qed

text \<open>
  Claim C7, amended. \<open>specific_heat\<close> and \<open>susceptibility\<close> do not check the temperature
  range. For \<open>T_min \<le> 0\<close> and \<open>T_steps \<ge> 0\<close>, when nothing else fails (the eigenvalue routines
  return a non-empty spectrum; for \<open>susceptibility\<close> also \<open>J > 0\<close>, a direction of at least
  three entries and non-zero norm, and a Hamiltonian of the size of the operators), both
  raise no error and return a curve of \<open>T_steps\<close> rows whose temperatures are the linear grid
  from \<open>T_min\<close> to \<open>T_max\<close>. Nothing is said about the values of the rows.
\<close>

theorem no_temperature_range_check:
  assumes "T_min \<le> 0" and "0 \<le> T_steps" and "eigvalsh ham \<noteq> []"
    and "0 < J td" and "3 \<le> length dirn" and "LA_norm dirn \<noteq> 0"
    and "is_square (length (Jz_op td)) ham0"
    and "\<And>M. fst (eigh M) \<noteq> []"
  shows "\<exists>cv chi.
      specific_heat eigvalsh ham T_min T_max T_steps = Inr cv
    \<and> length cv = nat T_steps
    \<and> map fst cv = map (linear_grid T_min T_max (nat T_steps)) [0..<nat T_steps]
    \<and> susceptibility td eigh ham0 dirn B T_min T_max T_steps = Inr chi
    \<and> length chi = nat T_steps
    \<and> map fst chi = map (linear_grid T_min T_max (nat T_steps)) [0..<nat T_steps]"
proof -
  from assms(4) have J0: "0 \<le> J td" and nz: "2 * J td * (J td + 1) \<noteq> 0" by simp_all
  from specific_heat_runs[where eigvalsh=eigvalsh and ham=ham, OF assms(2,3)] obtain energies where
    cv: "specific_heat eigvalsh ham T_min T_max T_steps =
     Inr (map (\<lambda>t. (t, if t = 0 then None else Some (cV energies t)))
            (map (linear_grid T_min T_max (nat T_steps)) [0..<nat T_steps]))" by blast
  from field_operator_runs[OF assms(5,6)] obtain J_op where
    J_op: "field_operator td dirn = Inr (Some J_op)" by blast
  from perturbed_ham_runs[OF J0 assms(7) J_op] obtain H where
    H: "perturbed_ham (1 + (J td * (J td + 1) + S td * (S td + 1) - L td * (L td + 1)) / (2 * J td * (J td + 1)))
          ham0 J_op B = Inr H" by blast
  from susceptibility_runs[where eigh=eigh, OF assms(2) H assms(8) J_op gJLS_runs[OF nz]] obtain energies' where
    chi: "susceptibility td eigh ham0 dirn B T_min T_max T_steps =
     Inr (map (\<lambda>T. (T, if T = 0 \<or> B = 0 then None
                        else Some (Re (mag (1 + (J td * (J td + 1) + S td * (S td + 1) - L td * (L td + 1)) / (2 * J td * (J td + 1)))
                             J_op energies' (snd (eigh H)) T / complex_of_real B))))
            (map (linear_grid T_min T_max (nat T_steps)) [0..<nat T_steps]))" by blast
  let ?cv = "map (\<lambda>t. (t, if t = 0 then None else Some (cV energies t)))
            (map (linear_grid T_min T_max (nat T_steps)) [0..<nat T_steps])"
  let ?chi = "map (\<lambda>T. (T, if T = 0 \<or> B = 0 then None
                        else Some (Re (mag (1 + (J td * (J td + 1) + S td * (S td + 1) - L td * (L td + 1)) / (2 * J td * (J td + 1)))
                             J_op energies' (snd (eigh H)) T / complex_of_real B))))
            (map (linear_grid T_min T_max (nat T_steps)) [0..<nat T_steps])"
  have "length ?cv = nat T_steps" "map fst ?cv = map (linear_grid T_min T_max (nat T_steps)) [0..<nat T_steps]"
    "length ?chi = nat T_steps" "map fst ?chi = map (linear_grid T_min T_max (nat T_steps)) [0..<nat T_steps]"
    by (simp_all add: o_def)
  with cv chi show ?thesis by blast
qed

theorem no_temperature_range_check_witness:
  "(0::real) \<le> 0 \<and> (0::int) \<le> 3 \<and> example_eigvalsh example_ham \<noteq> []
   \<and> 0 < J example_spin_half
   \<and> 3 \<le> length [0, 0, 1 :: real] \<and> LA_norm [0, 0, 1] \<noteq> 0
   \<and> is_square (length (Jz_op example_spin_half)) example_ham
   \<and> (\<forall>M. fst (example_eigh M) \<noteq> [])
   \<and> (\<exists>cv chi.
      specific_heat example_eigvalsh example_ham 0 300 3 = Inr cv
    \<and> length cv = nat 3
    \<and> map fst cv = map (linear_grid 0 300 (nat 3)) [0..<nat 3]
    \<and> susceptibility example_spin_half example_eigh example_ham [0, 0, 1] (1/10000) 0 300 3 = Inr chi
    \<and> length chi = nat 3
    \<and> map fst chi = map (linear_grid 0 300 (nat 3)) [0..<nat 3])"
proof -
  have h1: "(0::real) \<le> 0" and h2: "(0::int) \<le> 3" by simp_all
  have h3: "example_eigvalsh example_ham \<noteq> []" by (simp add: example_eigvalsh_def)
  have h4: "0 < J example_spin_half"
    by (simp add: example_spin_half_def)
  have h5: "3 \<le> length [0, 0, 1 :: real]" by simp
  have h6: "LA_norm [0, 0, 1] \<noteq> 0" by (simp add: LA_norm_def)
  have h7: "fst (example_eigh M) \<noteq> []" for M by (simp add: example_eigh_def)
  from no_temperature_range_check [where eigvalsh = example_eigvalsh and eigh = example_eigh
      and B = "1/10000" and T_max = 300, OF h1 h2 h3 h4 h5 h6 example_ham_square h7]
    h1 h2 h3 h4 h5 h6 example_ham_square h7
  show ?thesis by blast
qed

section \<open>\<open>susceptibility\<close> against \<open>magnetization\<close>\<close>

lemma mag_rows_Inr:
  assumes "mag_rows body Bs = Inr rows"
  shows "length rows = length Bs \<and> (\<forall>b<length Bs. body (Bs ! b) = Inr (rows ! b))"
  using assms
proof (induction Bs arbitrary: rows)
  case Nil
  then show ?case by simp
next
  case (Cons B Bs)
  from Cons.prems obtain row rows' where
    row: "body B = Inr row" and rest: "mag_rows body Bs = Inr rows'" and rows: "rows = row # rows'"
    by (auto split: sum.splits)
  from Cons.IH[OF rest] have IH: "length rows' = length Bs" "\<forall>b<length Bs. body (Bs ! b) = Inr (rows' ! b)"
    by simp_all
  show ?case
  proof (intro conjI allI impI)
    show "length rows = length (B # Bs)" using IH(1) rows by simp
  next
    fix b assume "b < length (B # Bs)"
    then show "body ((B # Bs) ! b) = Inr (rows ! b)"
      using row rows IH(2) by (cases b) simp_all
  qed
qed

lemma geomspace_nonzero:
  assumes "geomspace a b n = Inr Tg" and "Some x \<in> set Tg"
  shows "x \<noteq> 0"
proof -
  let ?f = "\<lambda>i. if i = 0 then Some a
                          else if i = nat n - 1 then Some b
                          else if 0 < a \<and> 0 < b then
                            Some (10 powr (log 10 a
                                    + real i * ((log 10 b - log 10 a) / real (nat n - 1))))
                          else if a < 0 \<and> b < 0 then
                            Some (- (10 powr (log 10 (- a)
                                    + real i * ((log 10 (- b) - log 10 (- a)) / real (nat n - 1)))))
                          else None"
  from assms(1) have ab: "a \<noteq> 0" "b \<noteq> 0" and Tg: "Tg = map ?f [0..<nat n]"
    by (simp_all add: geomspace_def split: if_splits)
  from assms(2) have "Some x \<in> set (map ?f [0..<nat n])" unfolding Tg .
  then obtain i where i: "Some x = ?f i" unfolding set_map by blast
  show ?thesis
  proof (cases "i = 0")
    case True
    with i ab show ?thesis by simp
  next
    case i0: False
    show ?thesis
    proof (cases "i = nat n - 1")
      case True
      with i i0 ab show ?thesis by simp
    next
      case False
      with i i0 show ?thesis by (simp split: if_splits)
    qed
  qed
qed

lemma magnetization_Inr:
  assumes "magnetization td eigh hamz dirn B_min B_max B_steps T_min T_max T_steps = Inr m"
    and "b < length m"
  shows "\<exists>g J_op Tg Bs.
      gJLS td = Inr g \<and> geomspace T_min T_max T_steps = Inr Tg \<and> linspace B_min B_max B_steps = Inr Bs
    \<and> field_operator td dirn = Inr (Some J_op)
    \<and> b < length Bs \<and> mag_B g J_op eigh hamz Tg (Bs ! b) = Inr (m ! b)"
proof -
  from assms(1) obtain g Tg Bs where
    g: "gJLS td = Inr g" and Tg: "geomspace T_min T_max T_steps = Inr Tg"
    and Bs: "linspace B_min B_max B_steps = Inr Bs"
    unfolding magnetization_def by (simp split: sum.splits)
  show ?thesis
  proof (cases "field_operator td dirn")
    case (Inl e)
    with assms(1) g Tg Bs show ?thesis by (simp add: magnetization_def)
  next
    case (Inr r)
    show ?thesis
    proof (cases r)
      case None
      with assms g Tg Bs Inr show ?thesis
        by (simp add: magnetization_def split: if_splits sum.splits)
    next
      case (Some J_op)
      with assms(1) g Tg Bs Inr have "mag_rows (mag_B g J_op eigh hamz Tg) Bs = Inr m"
        by (simp add: magnetization_def)
      from mag_rows_Inr[OF this] assms(2)
      have "b < length Bs" "mag_B g J_op eigh hamz Tg (Bs ! b) = Inr (m ! b)" by simp_all
      with g Tg Bs Inr Some show ?thesis by simp
    qed
  qed
qed

lemma mag_B_Inr:
  assumes "mag_B g J_op eigh hamz Tg B = Inr row"
  shows "\<exists>H es V energies. perturbed_ham g hamz J_op B = Inr H
    \<and> eigh H = (es, V) \<and> shift_energies es = Inr energies
    \<and> row = map (\<lambda>T. (B, T, case T of None \<Rightarrow> None
                                | Some t \<Rightarrow> if t = 0 then None
                                            else Some (Re (mag g J_op energies V t)))) Tg"
  using assms unfolding mag_B_def
  by (simp split: sum.splits prod.splits)

lemma example_linspace_T: "linspace 1 300 2 = Inr [1, 300]"
  by (simp add: linspace_def upt_conv_Cons)

lemma example_linspace_B: "linspace (1/10000) (1/10000) 1 = Inr [1/10000]"
  by (simp add: linspace_def)

lemma example_geomspace: "geomspace 1 300 2 = Inr [Some 1, Some 300]"
  by (simp add: geomspace_def upt_conv_Cons)

text \<open>
  Claim C4. For one zero-field Hamiltonian, one field direction and one eigenvalue routine,
  let the field \<open>B\<close> of \<open>susceptibility\<close> be a non-zero field that is also a point of the field
  grid of \<open>magnetization\<close>, and let a temperature \<open>T\<close> be a point of both temperature grids.
  Then the susceptibility at \<open>T\<close> is finite and, multiplied by \<open>B\<close>, equals the magnetization
  at \<open>(B, T)\<close>: \<open>chi(T) = <J_dir>(T)/B\<close>. (Over the reals, where the product by \<open>B\<close> undoes
  the quotient by \<open>B\<close> exactly; in floating point the two agree up to rounding.)
\<close>

theorem susceptibility_times_field_is_magnetization:
  assumes "B \<noteq> 0"
    and "susceptibility td eigh ham0 dirn B T_min T_max T_steps = Inr chi"
    and "magnetization td eigh ham0 dirn B_min B_max B_steps T_min' T_max' T_steps' = Inr m"
    and "i < length chi" and "b < length m" and "t < length (m ! b)"
    and "fst (m ! b ! t) = B"
    and "fst (snd (m ! b ! t)) = Some (fst (chi ! i))"
  shows "\<exists>x. snd (chi ! i) = Some x \<and> snd (snd (m ! b ! t)) = Some (x * B)"
proof -
  from susceptibility_Inr[OF assms(2)] obtain g J_op H es V energies T_array where
    s: "gJLS td = Inr g" "linspace T_min T_max T_steps = Inr T_array"
    "field_operator td dirn = Inr (Some J_op)"
    "eigh H = (es, V)" "shift_energies es = Inr energies"
    "chi = map (\<lambda>T. (T, if T = 0 \<or> B = 0 then None
                           else Some (Re (mag g J_op energies V T / complex_of_real B)))) T_array"
    and H: "perturbed_ham g ham0 J_op B = Inr H"
    by blast
  from magnetization_Inr[OF assms(3,5)] s(1,3) obtain Tg Bs where
    m: "geomspace T_min' T_max' T_steps' = Inr Tg" "b < length Bs"
    "mag_B g J_op eigh ham0 Tg (Bs ! b) = Inr (m ! b)"
    by auto
  from mag_B_Inr[OF m(3)] obtain H' es' V' energies' where
    H': "perturbed_ham g ham0 J_op (Bs ! b) = Inr H'" and
    r: "eigh H' = (es', V')" "shift_energies es' = Inr energies'"
    "m ! b = map (\<lambda>T. (Bs ! b, T, case T of None \<Rightarrow> None
                                | Some t \<Rightarrow> if t = 0 then None
                                            else Some (Re (mag g J_op energies' V' t)))) Tg"
    by blast
  from assms(6) r(3) have t: "t < length Tg" by simp
  with r(3) have entry: "m ! b ! t = (Bs ! b, Tg ! t, case Tg ! t of None \<Rightarrow> None
                                | Some t \<Rightarrow> if t = 0 then None
                                            else Some (Re (mag g J_op energies' V' t)))"
    by simp
  with assms(7) have B: "Bs ! b = B" by simp
  with H H' have "H' = H" by simp
  with r(1,2) s(4,5) have same: "es' = es" "V' = V" "energies' = energies" by simp_all
  from assms(4) s(6) have i: "i < length T_array" by simp
  let ?T = "T_array ! i"
  from i s(6) have chi_i: "chi ! i = (?T, if ?T = 0 \<or> B = 0 then None
                           else Some (Re (mag g J_op energies V ?T / complex_of_real B)))"
    by simp
  with entry assms(8) have T: "Tg ! t = Some ?T" by simp
  with t have "Some ?T \<in> set Tg" by (metis nth_mem)
  from geomspace_nonzero[OF m(1) this] have T0: "?T \<noteq> 0" .
  have "Re (mag g J_op energies V ?T / complex_of_real B) * B = Re (mag g J_op energies V ?T)"
    using assms(1) by (simp add: Re_divide_of_real)
  with chi_i entry T T0 same assms(1) show ?thesis by simp
qed

theorem susceptibility_times_field_is_magnetization_witness:
  "(1/10000 :: real) \<noteq> 0
   \<and> \<not> isl (susceptibility example_spin_half example_eigh example_ham [0, 0, 1] (1/10000) 1 300 2)
   \<and> \<not> isl (magnetization example_spin_half example_eigh example_ham [0, 0, 1] (1/10000) (1/10000) 1 1 300 2)
   \<and> fst (projr (magnetization example_spin_half example_eigh example_ham [0, 0, 1] (1/10000) (1/10000) 1 1 300 2) ! 0 ! 0)
       = 1/10000
   \<and> fst (snd (projr (magnetization example_spin_half example_eigh example_ham [0, 0, 1] (1/10000) (1/10000) 1 1 300 2) ! 0 ! 0))
       = Some (fst (projr (susceptibility example_spin_half example_eigh example_ham [0, 0, 1] (1/10000) 1 300 2) ! 0))
   \<and> (\<exists>x. snd (projr (susceptibility example_spin_half example_eigh example_ham [0, 0, 1] (1/10000) 1 300 2) ! 0) = Some x
         \<and> snd (snd (projr (magnetization example_spin_half example_eigh example_ham [0, 0, 1] (1/10000) (1/10000) 1 1 300 2) ! 0 ! 0))
             = Some (x * (1/10000)))"
proof -
  let ?S = "susceptibility example_spin_half example_eigh example_ham [0, 0, 1] (1/10000) 1 300 2"
  let ?M = "magnetization example_spin_half example_eigh example_ham [0, 0, 1] (1/10000) (1/10000) 1 1 300 2"
  have B: "(1/10000 :: real) \<noteq> 0" by simp
  have J0: "0 \<le> J example_spin_half" by (simp add: example_spin_half_def)
  from perturbed_ham_runs[OF J0 example_ham_square example_field_operator]
  obtain H where H: "perturbed_ham 2 example_ham
      (mat_add (mat_add (mat_scale 0 (Jx_op example_spin_half)) (mat_scale 0 (Jy_op example_spin_half)))
                        (mat_scale 1 (Jz_op example_spin_half))) (1/10000) = Inr H"
    by blast
  have S: "\<not> isl ?S" "length (projr ?S) = 2" "fst (projr ?S ! 0) = 1"
    by (simp_all add: susceptibility_def example_gJLS example_field_operator example_linspace_T H
        example_eigh_def shift_energies_def)
  have M: "\<not> isl ?M" "length (projr ?M) = 1" "length (projr ?M ! 0) = 2"
    "fst (projr ?M ! 0 ! 0) = 1/10000" "fst (snd (projr ?M ! 0 ! 0)) = Some 1"
    by (simp_all add: magnetization_def mag_B_def example_gJLS example_field_operator H
        example_linspace_B example_geomspace example_eigh_def shift_energies_def)
  have Seq: "?S = Inr (projr ?S)" and Meq: "?M = Inr (projr ?M)"
    using S(1) M(1) by simp_all
  have i: "0 < length (projr ?S)" and b: "0 < length (projr ?M)" and t: "0 < length (projr ?M ! 0)"
    using S(2) M(2,3) by simp_all
  have T: "fst (snd (projr ?M ! 0 ! 0)) = Some (fst (projr ?S ! 0))"
    using M(5) S(3) by simp
  from susceptibility_times_field_is_magnetization [OF B Seq Meq i b t M(4) T] B S(1) M(1) M(4) T
  show ?thesis by blast
qed

section \<open>Commutation relations\<close>

lemma fprod_lin_left:
  "fprod d (\<lambda>r c. a * A r c + b * B r c) C r c = a * fprod d A C r c + b * fprod d B C r c"
  by (simp add: fprod_def sum.distrib sum_distrib_left algebra_simps)

lemma fprod_lin_right:
  "fprod d C (\<lambda>r c. a * A r c + b * B r c) r c = a * fprod d C A r c + b * fprod d C B r c"
  by (simp add: fprod_def sum.distrib sum_distrib_left algebra_simps)

lemma fprod_sub_left:
  assumes "r < d"
  shows "fprod d (\<lambda>r c. if r = Suc c then p c else 0) B r c
       = (case r of 0 \<Rightarrow> 0 | Suc r' \<Rightarrow> p r' * B r' c)"
proof (cases r)
  case 0
  then show ?thesis by (simp add: fprod_def)
next
  case (Suc r')
  have "(\<Sum>k<d. (if r = Suc k then p k else 0) * B k c) = (\<Sum>k<d. if k = r' then p k * B k c else 0)"
    using Suc by (intro sum.cong) auto
  also have "\<dots> = p r' * B r' c"
    using assms Suc by simp
  finally show ?thesis using Suc by (simp add: fprod_def)
qed

lemma fprod_sup_left:
  "fprod d (\<lambda>r c. if c = Suc r then p r else 0) B r c
       = (if Suc r < d then p r * B (Suc r) c else 0)"
proof -
  have "(\<Sum>k<d. (if k = Suc r then p r else 0) * B k c) = (\<Sum>k<d. if k = Suc r then p r * B k c else 0)"
    by (intro sum.cong) auto
  also have "\<dots> = (if Suc r < d then p r * B (Suc r) c else 0)"
    by simp
  finally show ?thesis by (simp add: fprod_def)
qed

lemma fprod_diag_left:
  assumes "r < d"
  shows "fprod d (\<lambda>r c. if r = c then z r else 0) B r c = z r * B r c"
proof -
  have "(\<Sum>k<d. (if r = k then z r else 0) * B k c) = (\<Sum>k<d. if k = r then z r * B k c else 0)"
    by (intro sum.cong) auto
  also have "\<dots> = z r * B r c" using assms by simp
  finally show ?thesis by (simp add: fprod_def)
qed

lemma fprod_diag_right:
  assumes "c < d"
  shows "fprod d A (\<lambda>r c. if r = c then z r else 0) r c = A r c * z c"
proof -
  have "(\<Sum>k<d. A r k * (if k = c then z k else 0)) = (\<Sum>k<d. if k = c then A r k * z k else 0)"
    by (intro sum.cong) auto
  also have "\<dots> = A r c * z c" using assms by simp
  finally show ?thesis by (simp add: fprod_def)
qed

text \<open>The three relations between the ladder matrices and the diagonal matrix, on entries.\<close>

lemma ladder_commutator:
  assumes "r < Suc n" and "c < Suc n"
    and sq: "\<And>k. k \<le> n \<Longrightarrow> p k * p k = (of_nat n - of_nat k) * (of_nat k + 1)"
  shows "fprod (Suc n) (\<lambda>r c. if r = Suc c then p c else 0) (\<lambda>r c. if c = Suc r then p r else 0) r c
       - fprod (Suc n) (\<lambda>r c. if c = Suc r then p r else 0) (\<lambda>r c. if r = Suc c then p c else (0::complex)) r c
       = 2 * (if r = c then of_nat r - of_nat n / 2 else 0)"
proof (cases r)
  case 0
  show ?thesis
  proof (cases "c = 0")
    case True
    with 0 assms(1) sq[of 0] show ?thesis
      by (simp add: fprod_sub_left fprod_sup_left)
  next
    case False
    with 0 assms(1) show ?thesis
      by (simp add: fprod_sub_left fprod_sup_left)
  qed
next
  case (Suc r')
  show ?thesis
  proof (cases "c = r")
    case True
    from Suc assms(1) have r': "r' \<le> n" and r: "r \<le> n" by simp_all
    show ?thesis
    proof (cases "r = n")
      case rn: True
      with True Suc assms(1) sq[OF r'] show ?thesis
        by (simp add: fprod_sub_left fprod_sup_left algebra_simps)
    next
      case False
      have a: "p r' * p r' = (of_nat n - of_nat r') * (of_nat r' + 1)" by (rule sq[OF r'])
      have b: "p r * p r = (of_nat n - (of_nat r' + 1)) * (of_nat r' + 1 + 1)"
        using sq[OF r] Suc by simp
      have "fprod (Suc n) (\<lambda>r c. if r = Suc c then p c else 0) (\<lambda>r c. if c = Suc r then p r else 0) r c
       - fprod (Suc n) (\<lambda>r c. if c = Suc r then p r else 0) (\<lambda>r c. if r = Suc c then p c else (0::complex)) r c
       = p r' * p r' - p r * p r"
        using False True Suc assms(1) by (simp add: fprod_sub_left fprod_sup_left)
      also have "\<dots> = 2 * (of_nat r' + 1 - of_nat n / 2)"
        unfolding a b by (simp add: algebra_simps)
      finally show ?thesis using True Suc by simp
    qed
  next
    case False
    with Suc assms(1) show ?thesis
      by (auto simp add: fprod_sub_left fprod_sup_left)
  qed
qed

lemma diag_sub_commutator:
  assumes "r < d" and "c < d"
  shows "fprod d (\<lambda>r c. if r = c then of_nat r - h else 0) (\<lambda>r c. if r = Suc c then p c else 0) r c
       - fprod d (\<lambda>r c. if r = Suc c then p c else 0) (\<lambda>r c. if r = c then of_nat r - h else (0::complex)) r c
       = (if r = Suc c then p c else 0)"
  using assms by (simp add: fprod_diag_left fprod_diag_right algebra_simps)

lemma diag_sup_commutator:
  assumes "r < d" and "c < d"
  shows "fprod d (\<lambda>r c. if r = c then of_nat r - h else 0) (\<lambda>r c. if c = Suc r then p r else 0) r c
       - fprod d (\<lambda>r c. if c = Suc r then p r else 0) (\<lambda>r c. if r = c then of_nat r - h else (0::complex)) r c
       = - (if c = Suc r then p r else 0)"
  using assms by (simp add: fprod_diag_left fprod_diag_right algebra_simps)

lemma comm_xy:
  "fprod d (\<lambda>r c. (1/2) * P r c + (1/2) * M r c) (\<lambda>r c. (- \<i> / 2) * P r c + (\<i> / 2) * M r c) r c
   - fprod d (\<lambda>r c. (- \<i> / 2) * P r c + (\<i> / 2) * M r c) (\<lambda>r c. (1/2) * P r c + (1/2) * M r c) r c
   = (\<i> / 2) * (fprod d P M r c - fprod d M P r c)"
  unfolding fprod_lin_left fprod_lin_right by (simp add: algebra_simps)

lemma comm_yz:
  "fprod d (\<lambda>r c. (- \<i> / 2) * P r c + (\<i> / 2) * M r c) Z r c
   - fprod d Z (\<lambda>r c. (- \<i> / 2) * P r c + (\<i> / 2) * M r c) r c
   = (\<i> / 2) * (fprod d Z P r c - fprod d P Z r c) - (\<i> / 2) * (fprod d Z M r c - fprod d M Z r c)"
  unfolding fprod_lin_left fprod_lin_right by (simp add: algebra_simps)

lemma comm_zx:
  "fprod d Z (\<lambda>r c. (1/2) * P r c + (1/2) * M r c) r c
   - fprod d (\<lambda>r c. (1/2) * P r c + (1/2) * M r c) Z r c
   = (1/2) * (fprod d Z P r c - fprod d P Z r c) + (1/2) * (fprod d Z M r c - fprod d M Z r c)"
  unfolding fprod_lin_left fprod_lin_right by (simp add: algebra_simps)

lemma half_integer_dim:
  assumes "J td = real n / 2"
  shows "nat \<lceil>2 * J td\<rceil> = n" and "0 \<le> J td"
  unfolding assms by simp_all

lemma ladder_square:
  assumes "J td = real n / 2" and "k \<le> n"
  shows "ladder td k * ladder td k = (of_nat n - of_nat k) * (of_nat k + 1)"
proof -
  let ?x = "(real n - real k) * (real k + 1)"
  have nn: "0 \<le> ?x" using assms(2) by simp
  have l: "ladder td k = complex_of_real (sqrt ?x)"
    unfolding ladder_def assms(1) by simp
  have "sqrt ?x * sqrt ?x = ?x" using nn by (simp only: real_sqrt_mult_self abs_of_nonneg)
  then have "complex_of_real (sqrt ?x) * complex_of_real (sqrt ?x) = complex_of_real ?x"
    by (simp only: of_real_mult [symmetric])
  also have "\<dots> = (of_nat n - of_nat k) * (of_nat k + 1)"
    by simp
  finally show ?thesis unfolding l .
qed

lemma operator_entries:
  assumes "J td = real n / 2" and "r < Suc n" and "c < Suc n"
  shows "Jz_op td ! r ! c = (if r = c then of_nat r - of_nat n / 2 else 0)"
    and "Jx_op td ! r ! c = (1/2) * (if r = Suc c then ladder td c else 0)
                          + (1/2) * (if c = Suc r then ladder td r else 0)"
    and "Jy_op td ! r ! c = (- \<i> / 2) * (if r = Suc c then ladder td c else 0)
                          + (\<i> / 2) * (if c = Suc r then ladder td r else 0)"
proof -
  note d = half_integer_dim[OF assms(1)]
  from assms(2,3) d(1) have rc: "r < Suc (nat \<lceil>2 * J td\<rceil>)" "c < Suc (nat \<lceil>2 * J td\<rceil>)"
    by simp_all
  have "Jz_op td ! r ! c = (if r = c then complex_of_real (real r - J td) else 0)"
    by (rule Jz_nth[OF d(2) rc])
  also have "complex_of_real (real r - J td) = of_nat r - of_nat n / 2"
    unfolding assms(1) by simp
  finally show "Jz_op td ! r ! c = (if r = c then of_nat r - of_nat n / 2 else 0)" .
  show "Jx_op td ! r ! c = (1/2) * (if r = Suc c then ladder td c else 0)
                          + (1/2) * (if c = Suc r then ladder td r else 0)"
    unfolding Jx_nth[OF rc] Jplus_nth[OF rc] Jminus_nth[OF rc] by (simp add: algebra_simps)
  show "Jy_op td ! r ! c = (- \<i> / 2) * (if r = Suc c then ladder td c else 0)
                          + (\<i> / 2) * (if c = Suc r then ladder td r else 0)"
    unfolding Jy_nth[OF rc] Jplus_nth[OF rc] Jminus_nth[OF rc] by (simp add: algebra_simps)
qed

lemma operator_squares:
  assumes "J td = real n / 2"
  shows "is_square (Suc n) (Jz_op td)" "is_square (Suc n) (Jx_op td)" "is_square (Suc n) (Jy_op td)"
  using Jz_square[of td] Jx_square[of td] Jy_square[of td] half_integer_dim[OF assms]
  by simp_all

lemma commutator_entries:
  assumes "is_square d A" and "is_square d B" and "r < d" and "c < d"
    and "\<And>r c. r < d \<Longrightarrow> c < d \<Longrightarrow> A ! r ! c = fA r c"
    and "\<And>r c. r < d \<Longrightarrow> c < d \<Longrightarrow> B ! r ! c = fB r c"
  shows "commutator A B ! r ! c = fprod d fA fB r c - fprod d fB fA r c"
proof -
  have 1: "fprod d (\<lambda>r c. A ! r ! c) (\<lambda>r c. B ! r ! c) r c = fprod d fA fB r c"
    using assms(3,4,5,6) by (intro fprod_cong) simp_all
  have 2: "fprod d (\<lambda>r c. B ! r ! c) (\<lambda>r c. A ! r ! c) r c = fprod d fB fA r c"
    using assms(3,4,5,6) by (intro fprod_cong) simp_all
  show ?thesis
    unfolding commutator_nth[OF assms(1,2,3,4)] 1 2 ..
qed

text \<open>
  Claim C5. For every half-integer \<open>J = n/2\<close> (\<open>n = 0, 1, 2, ...\<close>) the matrix \<open>Jz\<close> is diagonal,
  its diagonal entries are \<open>-J, -J+1, ..., J\<close> in this order (the first is \<open>-J\<close>, the last is
  \<open>J\<close>, each is the previous one plus 1), and the three operators satisfy
  \<open>[Jx, Jy] = i Jz\<close>, \<open>[Jy, Jz] = i Jx\<close> and \<open>[Jz, Jx] = i Jy\<close>. (Over the reals and complex
  numbers, where the square of a square root is exact.)
\<close>

theorem angular_momentum_operators:
  assumes "J td = real n / 2"
  shows "Jz_op td = map (\<lambda>r. map (\<lambda>c. if r = c then complex_of_real (real r - J td) else 0) [0..<Suc n]) [0..<Suc n]
     \<and> map (\<lambda>r. real r - J td) [0..<Suc n] ! 0 = - J td
     \<and> map (\<lambda>r. real r - J td) [0..<Suc n] ! n = J td
     \<and> (\<forall>r<n. map (\<lambda>r. real r - J td) [0..<Suc n] ! Suc r = map (\<lambda>r. real r - J td) [0..<Suc n] ! r + 1)
     \<and> commutator (Jx_op td) (Jy_op td) = mat_scale \<i> (Jz_op td)
     \<and> commutator (Jy_op td) (Jz_op td) = mat_scale \<i> (Jx_op td)
     \<and> commutator (Jz_op td) (Jx_op td) = mat_scale \<i> (Jy_op td)"
proof -
  let ?d = "Suc n"
  let ?P = "\<lambda>r c. if r = Suc c then ladder td c else 0"
  let ?M = "\<lambda>r c. if c = Suc r then ladder td r else 0"
  let ?Z = "\<lambda>r c::nat. if r = c then complex_of_nat r - complex_of_nat n / 2 else 0"
  let ?X = "\<lambda>r c. (1/2) * ?P r c + (1/2) * ?M r c"
  let ?Y = "\<lambda>r c. (- \<i> / 2) * ?P r c + (\<i> / 2) * ?M r c"
  note sq = operator_squares[OF assms]
  note ent = operator_entries[OF assms]
  note d = half_integer_dim[OF assms]
  have PM: "fprod ?d ?P ?M r c - fprod ?d ?M ?P r c = 2 * ?Z r c" if "r < ?d" "c < ?d" for r c
    using that ladder_square[OF assms] by (intro ladder_commutator) simp_all
  have ZP: "fprod ?d ?Z ?P r c - fprod ?d ?P ?Z r c = ?P r c" if "r < ?d" "c < ?d" for r c
    using that by (rule diag_sub_commutator)
  have ZM: "fprod ?d ?Z ?M r c - fprod ?d ?M ?Z r c = - ?M r c" if "r < ?d" "c < ?d" for r c
    using that by (rule diag_sup_commutator)
  have z: "Jz_op td = map (\<lambda>r. map (\<lambda>c. if r = c then complex_of_real (real r - J td) else 0) [0..<Suc n]) [0..<Suc n]"
  proof (rule square_eqI[of ?d])
    show "is_square ?d (Jz_op td)" by (rule sq(1))
    show "is_square ?d (map (\<lambda>r. map (\<lambda>c. if r = c then complex_of_real (real r - J td) else 0) [0..<Suc n]) [0..<Suc n])"
      by (rule is_squareI) (simp_all del: upt_Suc)
  next
    fix r c assume rc: "r < ?d" "c < ?d"
    then have "Jz_op td ! r ! c = (if r = c then complex_of_real (real r - J td) else 0)"
      using Jz_nth[OF d(2), of r c] d(1) by simp
    moreover have "map (\<lambda>r. map (\<lambda>c. if r = c then complex_of_real (real r - J td) else 0) [0..<Suc n]) [0..<Suc n] ! r ! c
        = (if r = c then complex_of_real (real r - J td) else 0)"
      using rc by (simp del: upt_Suc of_real_diff)
    ultimately show "Jz_op td ! r ! c
       = map (\<lambda>r. map (\<lambda>c. if r = c then complex_of_real (real r - J td) else 0) [0..<Suc n]) [0..<Suc n] ! r ! c"
      by simp
  qed
  have v0: "map (\<lambda>r. real r - J td) [0..<Suc n] ! 0 = - J td"
    by (simp del: upt_Suc)
  have vn: "map (\<lambda>r. real r - J td) [0..<Suc n] ! n = J td"
    unfolding assms by (simp del: upt_Suc)
  have vs: "\<forall>r<n. map (\<lambda>r. real r - J td) [0..<Suc n] ! Suc r = map (\<lambda>r. real r - J td) [0..<Suc n] ! r + 1"
    by (simp del: upt_Suc)
  have xy: "commutator (Jx_op td) (Jy_op td) = mat_scale \<i> (Jz_op td)"
  proof (rule square_eqI[of ?d])
    show "is_square ?d (commutator (Jx_op td) (Jy_op td))" by (intro commutator_square sq)
    show "is_square ?d (mat_scale \<i> (Jz_op td))" by (intro mat_scale_square sq)
  next
    fix r c assume rc: "r < ?d" "c < ?d"
    have "commutator (Jx_op td) (Jy_op td) ! r ! c = fprod ?d ?X ?Y r c - fprod ?d ?Y ?X r c"
      using rc by (intro commutator_entries sq ent) simp_all
    also have "\<dots> = (\<i> / 2) * (fprod ?d ?P ?M r c - fprod ?d ?M ?P r c)"
      by (rule comm_xy)
    also have "\<dots> = \<i> * ?Z r c"
      unfolding PM[OF rc] by simp
    also have "\<dots> = mat_scale \<i> (Jz_op td) ! r ! c"
      unfolding mat_scale_nth[OF sq(1) rc] ent(1)[OF rc] ..
    finally show "commutator (Jx_op td) (Jy_op td) ! r ! c = mat_scale \<i> (Jz_op td) ! r ! c" .
  qed
  have yz: "commutator (Jy_op td) (Jz_op td) = mat_scale \<i> (Jx_op td)"
  proof (rule square_eqI[of ?d])
    show "is_square ?d (commutator (Jy_op td) (Jz_op td))" by (intro commutator_square sq)
    show "is_square ?d (mat_scale \<i> (Jx_op td))" by (intro mat_scale_square sq)
  next
    fix r c assume rc: "r < ?d" "c < ?d"
    have "commutator (Jy_op td) (Jz_op td) ! r ! c = fprod ?d ?Y ?Z r c - fprod ?d ?Z ?Y r c"
      using rc by (intro commutator_entries sq ent) simp_all
    also have "\<dots> = (\<i> / 2) * (fprod ?d ?Z ?P r c - fprod ?d ?P ?Z r c)
                   - (\<i> / 2) * (fprod ?d ?Z ?M r c - fprod ?d ?M ?Z r c)"
      by (rule comm_yz)
    also have "\<dots> = \<i> * ?X r c"
      unfolding ZP[OF rc] ZM[OF rc] by (simp add: algebra_simps)
    also have "\<dots> = mat_scale \<i> (Jx_op td) ! r ! c"
      unfolding mat_scale_nth[OF sq(2) rc] ent(2)[OF rc] ..
    finally show "commutator (Jy_op td) (Jz_op td) ! r ! c = mat_scale \<i> (Jx_op td) ! r ! c" .
  qed
  have zx: "commutator (Jz_op td) (Jx_op td) = mat_scale \<i> (Jy_op td)"
  proof (rule square_eqI[of ?d])
    show "is_square ?d (commutator (Jz_op td) (Jx_op td))" by (intro commutator_square sq)
    show "is_square ?d (mat_scale \<i> (Jy_op td))" by (intro mat_scale_square sq)
  next
    fix r c assume rc: "r < ?d" "c < ?d"
    have "commutator (Jz_op td) (Jx_op td) ! r ! c = fprod ?d ?Z ?X r c - fprod ?d ?X ?Z r c"
      using rc by (intro commutator_entries sq ent) simp_all
    also have "\<dots> = (1/2) * (fprod ?d ?Z ?P r c - fprod ?d ?P ?Z r c)
                   + (1/2) * (fprod ?d ?Z ?M r c - fprod ?d ?M ?Z r c)"
      by (rule comm_zx)
    also have "\<dots> = \<i> * ?Y r c"
      unfolding ZP[OF rc] ZM[OF rc] by (simp add: algebra_simps)
    also have "\<dots> = mat_scale \<i> (Jy_op td) ! r ! c"
      unfolding mat_scale_nth[OF sq(3) rc] ent(3)[OF rc] ..
    finally show "commutator (Jz_op td) (Jx_op td) ! r ! c = mat_scale \<i> (Jy_op td) ! r ! c" .
  qed
  from z v0 vn vs xy yz zx show ?thesis by blast
qed

theorem angular_momentum_operators_witness:
  "J example_spin_half = real 1 / 2
   \<and> Jz_op example_spin_half = [[- 1/2, 0], [0, 1/2]]
   \<and> commutator (Jx_op example_spin_half) (Jy_op example_spin_half) = mat_scale \<i> (Jz_op example_spin_half)
   \<and> commutator (Jy_op example_spin_half) (Jz_op example_spin_half) = mat_scale \<i> (Jx_op example_spin_half)
   \<and> commutator (Jz_op example_spin_half) (Jx_op example_spin_half) = mat_scale \<i> (Jy_op example_spin_half)"
proof -
  have h: "J example_spin_half = real 1 / 2" by (simp add: example_spin_half_def)
  have e: "map (\<lambda>r. map (\<lambda>c. if r = c then complex_of_real (real r - J example_spin_half) else 0) [0..<Suc 1]) [0..<Suc 1]
         = [[- 1/2, 0], [0, 1/2]]"
    by (simp add: example_spin_half_def upt_conv_Cons)
  note t = angular_momentum_operators [OF h]
  from t have "Jz_op example_spin_half
      = map (\<lambda>r. map (\<lambda>c. if r = c then complex_of_real (real r - J example_spin_half) else 0) [0..<Suc 1]) [0..<Suc 1]"
    by blast
  then have z: "Jz_op example_spin_half = [[- 1/2, 0], [0, 1/2]]"
    unfolding e .
  from t have c: "commutator (Jx_op example_spin_half) (Jy_op example_spin_half) = mat_scale \<i> (Jz_op example_spin_half)"
    "commutator (Jy_op example_spin_half) (Jz_op example_spin_half) = mat_scale \<i> (Jx_op example_spin_half)"
    "commutator (Jz_op example_spin_half) (Jx_op example_spin_half) = mat_scale \<i> (Jy_op example_spin_half)"
    by blast+
  from h z c show ?thesis by blast
qed

section \<open>The Hamiltonian in a magnetic field\<close>

lemma normalized_LA_norm: "normalized dirn = map (\<lambda>x. x / LA_norm dirn) dirn"
  by (simp add: normalized_def LA_norm_def)

lemma normalized_unit:
  assumes "length dirn = 3" and "LA_norm dirn \<noteq> 0"
  shows "(\<Sum>x\<leftarrow>normalized dirn. x\<^sup>2) = 1"
proof -
  from assms(1) obtain x y z where d: "dirn = [x, y, z]"
    by (cases dirn; cases "tl dirn"; cases "tl (tl dirn)") auto
  let ?q = "x\<^sup>2 + y\<^sup>2 + z\<^sup>2"
  have n: "LA_norm [x, y, z] = sqrt ?q" by (simp add: LA_norm_def)
  have q0: "0 \<le> ?q" by simp
  with assms(2) n d have qpos: "?q \<noteq> 0" by auto
  have s2: "(sqrt ?q)\<^sup>2 = ?q" using q0 by simp
  have "(x / sqrt ?q)\<^sup>2 + (y / sqrt ?q)\<^sup>2 + (z / sqrt ?q)\<^sup>2 = ?q / (sqrt ?q)\<^sup>2"
    by (simp only: power_divide add_divide_distrib)
  also have "\<dots> = 1" unfolding s2 using qpos by simp
  finally have "(x / sqrt ?q)\<^sup>2 + (y / sqrt ?q)\<^sup>2 + (z / sqrt ?q)\<^sup>2 = 1" .
  then show ?thesis unfolding normalized_LA_norm d n by simp
qed

lemma field_operator_nth:
  assumes "field_operator td dirn = Inr (Some J_op)" and "0 \<le> J td"
    and "r < Suc (nat \<lceil>2 * J td\<rceil>)" and "c < Suc (nat \<lceil>2 * J td\<rceil>)"
  shows "J_op ! r ! c = complex_of_real (dirn ! 0 / LA_norm dirn) * Jx_op td ! r ! c
                      + complex_of_real (dirn ! 1 / LA_norm dirn) * Jy_op td ! r ! c
                      + complex_of_real (dirn ! 2 / LA_norm dirn) * Jz_op td ! r ! c"
proof -
  let ?d = "Suc (nat \<lceil>2 * J td\<rceil>)"
  let ?A = "mat_scale (complex_of_real (dirn ! 0 / LA_norm dirn)) (Jx_op td)"
  let ?B = "mat_scale (complex_of_real (dirn ! 1 / LA_norm dirn)) (Jy_op td)"
  let ?C = "mat_scale (complex_of_real (dirn ! 2 / LA_norm dirn)) (Jz_op td)"
  from assms(1) have J_op: "J_op = mat_add (mat_add ?A ?B) ?C"
    by (simp add: field_operator_def split: if_splits)
  have sq: "is_square ?d ?A" "is_square ?d ?B" "is_square ?d ?C"
    by (intro mat_scale_square Jx_square Jy_square Jz_square assms(2))+
  have "J_op ! r ! c = mat_add ?A ?B ! r ! c + ?C ! r ! c"
    unfolding J_op using assms(3,4) by (intro mat_add_nth[of ?d] mat_add_square sq)
  also have "mat_add ?A ?B ! r ! c = ?A ! r ! c + ?B ! r ! c"
    using assms(3,4) by (intro mat_add_nth[of ?d] sq)
  also have "?A ! r ! c = complex_of_real (dirn ! 0 / LA_norm dirn) * Jx_op td ! r ! c"
    using assms(3,4) by (intro mat_scale_nth[of ?d] Jx_square)
  also have "?B ! r ! c = complex_of_real (dirn ! 1 / LA_norm dirn) * Jy_op td ! r ! c"
    using assms(3,4) by (intro mat_scale_nth[of ?d] Jy_square)
  also have "?C ! r ! c = complex_of_real (dirn ! 2 / LA_norm dirn) * Jz_op td ! r ! c"
    using assms(3,4) by (intro mat_scale_nth[of ?d] Jz_square assms(2))
  finally show ?thesis .
qed

lemma J_dir_square: "is_square (length (Jz_op td)) (J_dir td dirn)"
  unfolding J_dir_def by (rule is_squareI) simp_all

lemma J_dir_nth:
  assumes "r < length (Jz_op td)" and "c < length (Jz_op td)"
  shows "J_dir td dirn ! r ! c
       = complex_of_real (normalized dirn ! 0) * Jx_op td ! r ! c
         + complex_of_real (normalized dirn ! 1) * Jy_op td ! r ! c
         + complex_of_real (normalized dirn ! 2) * Jz_op td ! r ! c"
  using assms unfolding J_dir_def by simp

lemma field_hamiltonian_square: "is_square (length (Jz_op td)) (field_hamiltonian td hamz dirn g B)"
  unfolding field_hamiltonian_def by (rule is_squareI) simp_all

lemma field_hamiltonian_nth:
  assumes "r < length (Jz_op td)" and "c < length (Jz_op td)"
  shows "field_hamiltonian td hamz dirn g B ! r ! c
       = hamz ! r ! c - complex_of_real (g * 0.671713816 * B) * J_dir td dirn ! r ! c"
  using assms unfolding field_hamiltonian_def by simp

lemma field_operator_is_J_dir:
  assumes "0 \<le> J td" and "length dirn = 3" and "LA_norm dirn \<noteq> 0"
  shows "field_operator td dirn = Inr (Some (J_dir td dirn))"
proof -
  from assms(2,3) obtain J_op where J_op: "field_operator td dirn = Inr (Some J_op)"
    using field_operator_runs[of dirn td] by auto
  note d = length_Jz_op[OF assms(1)]
  have n: "normalized dirn ! i = dirn ! i / LA_norm dirn" if "i < 3" for i
    using that assms(2) by (simp add: normalized_LA_norm)
  have "J_op = J_dir td dirn"
  proof (rule square_eqI[of "length (Jz_op td)"])
    show "is_square (length (Jz_op td)) J_op"
      unfolding d by (rule field_operator_square[OF J_op assms(1)])
    show "is_square (length (Jz_op td)) (J_dir td dirn)" by (rule J_dir_square)
  next
    fix r c assume rc: "r < length (Jz_op td)" "c < length (Jz_op td)"
    then have rc': "r < Suc (nat \<lceil>2 * J td\<rceil>)" "c < Suc (nat \<lceil>2 * J td\<rceil>)"
      using d by simp_all
    show "J_op ! r ! c = J_dir td dirn ! r ! c"
      unfolding field_operator_nth[OF J_op assms(1) rc'] J_dir_nth[OF rc]
      by (simp add: n)
  qed
  with J_op show ?thesis by simp
qed

lemma perturbed_ham_is_field_hamiltonian:
  assumes "is_square (length (Jz_op td)) hamz"
  shows "perturbed_ham g hamz (J_dir td dirn) B = Inr (field_hamiltonian td hamz dirn g B)"
proof -
  let ?d = "length (Jz_op td)"
  from perturbed_ham_Inr[OF assms J_dir_square] obtain H where
    H: "perturbed_ham g hamz (J_dir td dirn) B = Inr H" by blast
  have "H = field_hamiltonian td hamz dirn g B"
  proof (rule square_eqI[of ?d])
    show "is_square ?d H" by (rule perturbed_ham_square[OF assms J_dir_square H])
    show "is_square ?d (field_hamiltonian td hamz dirn g B)" by (rule field_hamiltonian_square)
  next
    fix r c assume rc: "r < ?d" "c < ?d"
    show "H ! r ! c = field_hamiltonian td hamz dirn g B ! r ! c"
      unfolding perturbed_ham_nth[OF assms J_dir_square H rc] field_hamiltonian_nth[OF rc]
      by (simp add: muB_over_kB_def)
  qed
  with H show ?thesis by simp
qed

text \<open>
  Claim C3. For a zero-field Hamiltonian \<open>ham0\<close> of the size of the operators, a 3-vector
  direction of non-zero length and any field \<open>B\<close>: \<open>gJLS\<close> is the Land\'e factor
  \<open>1 + [J(J+1) + S(S+1) - L(L+1)] / [2J(J+1)]\<close>; the normalized direction has unit length; the
  operator the code builds is \<open>J_dir = d_x Jx + d_y Jy + d_z Jz\<close> of the normalized direction;
  the matrix the code diagonalizes is \<open>ham0 - gJLS * 0.671713816 * J_dir * B\<close>; and this matrix
  is the one used by both methods: every row of \<open>susceptibility\<close> is computed from the
  eigenvalues and eigenvectors of that matrix at the field \<open>B\<close>, and every row of
  \<open>magnetization\<close> from those of that matrix at the field of the row.
\<close>

theorem perturbed_hamiltonian_formula:
  assumes "0 < J td" and "length dirn = 3" and "LA_norm dirn \<noteq> 0"
    and "is_square (length (Jz_op td)) ham0"
  shows "gJLS td = Inr (lande_factor td)
    \<and> (\<Sum>x\<leftarrow>normalized dirn. x\<^sup>2) = 1
    \<and> field_operator td dirn = Inr (Some (J_dir td dirn))
    \<and> perturbed_ham (lande_factor td) ham0 (J_dir td dirn) B
        = Inr (field_hamiltonian td ham0 dirn (lande_factor td) B)
    \<and> susceptibility td eigh ham0 dirn B T_min T_max T_steps
        = (case linspace T_min T_max T_steps of
             Inl e \<Rightarrow> Inl e
           | Inr T_array \<Rightarrow>
          (case shift_energies (fst (eigh (field_hamiltonian td ham0 dirn (lande_factor td) B))) of
             Inl e \<Rightarrow> Inl e
           | Inr energies \<Rightarrow>
               Inr (map (\<lambda>T. (T, if T = 0 \<or> B = 0 then None
                                  else Some (Re (mag (lande_factor td) (J_dir td dirn) energies
                                                   (snd (eigh (field_hamiltonian td ham0 dirn (lande_factor td) B))) T
                                                 / complex_of_real B))))
                        T_array)))
    \<and> magnetization td eigh ham0 dirn B_min B_max B_steps T_min T_max T_steps
        = (case geomspace T_min T_max T_steps of
             Inl e \<Rightarrow> Inl e
           | Inr T_array \<Rightarrow>
          (case linspace B_min B_max B_steps of
             Inl e \<Rightarrow> Inl e
           | Inr B_array \<Rightarrow>
               mag_rows
                 (\<lambda>B'. case shift_energies (fst (eigh (field_hamiltonian td ham0 dirn (lande_factor td) B'))) of
                          Inl e \<Rightarrow> Inl e
                        | Inr energies \<Rightarrow>
                            Inr (map (\<lambda>T. (B', T,
                                       case T of
                                         None \<Rightarrow> None
                                       | Some t \<Rightarrow>
                                           if t = 0 then None
                                           else Some (Re (mag (lande_factor td) (J_dir td dirn) energies
                                                            (snd (eigh (field_hamiltonian td ham0 dirn (lande_factor td) B'))) t))))
                                     T_array))
                 B_array))"
proof -
  let ?g = "lande_factor td"
  from assms(1) have J0: "0 \<le> J td" and nz: "2 * J td * (J td + 1) \<noteq> 0" by simp_all
  have g: "gJLS td = Inr ?g" unfolding lande_factor_def by (rule gJLS_runs[OF nz])
  have unit: "(\<Sum>x\<leftarrow>normalized dirn. x\<^sup>2) = 1" by (rule normalized_unit[OF assms(2,3)])
  have fo: "field_operator td dirn = Inr (Some (J_dir td dirn))"
    by (rule field_operator_is_J_dir[OF J0 assms(2,3)])
  have ph: "perturbed_ham ?g ham0 (J_dir td dirn) B' = Inr (field_hamiltonian td ham0 dirn ?g B')" for B'
    by (rule perturbed_ham_is_field_hamiltonian[OF assms(4)])
  have su: "susceptibility td eigh ham0 dirn B T_min T_max T_steps
        = (case linspace T_min T_max T_steps of
             Inl e \<Rightarrow> Inl e
           | Inr T_array \<Rightarrow>
          (case shift_energies (fst (eigh (field_hamiltonian td ham0 dirn ?g B))) of
             Inl e \<Rightarrow> Inl e
           | Inr energies \<Rightarrow>
               Inr (map (\<lambda>T. (T, if T = 0 \<or> B = 0 then None
                                  else Some (Re (mag ?g (J_dir td dirn) energies
                                                   (snd (eigh (field_hamiltonian td ham0 dirn ?g B))) T
                                                 / complex_of_real B))))
                        T_array)))"
  proof (cases "linspace T_min T_max T_steps")
    case (Inl e)
    then show ?thesis by (simp add: susceptibility_def g)
  next
    case (Inr T_array)
    obtain es V where ev: "eigh (field_hamiltonian td ham0 dirn ?g B) = (es, V)"
      by (cases "eigh (field_hamiltonian td ham0 dirn ?g B)")
    show ?thesis by (simp add: susceptibility_def g Inr fo ph ev split: sum.splits)
  qed
  have mb: "mag_B ?g (J_dir td dirn) eigh ham0 T_array
        = (\<lambda>B'. case shift_energies (fst (eigh (field_hamiltonian td ham0 dirn ?g B'))) of
                   Inl e \<Rightarrow> Inl e
                 | Inr energies \<Rightarrow>
                     Inr (map (\<lambda>T. (B', T,
                                case T of
                                  None \<Rightarrow> None
                                | Some t \<Rightarrow>
                                    if t = 0 then None
                                    else Some (Re (mag ?g (J_dir td dirn) energies
                                                     (snd (eigh (field_hamiltonian td ham0 dirn ?g B'))) t))))
                              T_array))" for T_array
  proof (rule ext)
    fix B'
    show "mag_B ?g (J_dir td dirn) eigh ham0 T_array B'
        = (case shift_energies (fst (eigh (field_hamiltonian td ham0 dirn ?g B'))) of
                   Inl e \<Rightarrow> Inl e
                 | Inr energies \<Rightarrow>
                     Inr (map (\<lambda>T. (B', T,
                                case T of
                                  None \<Rightarrow> None
                                | Some t \<Rightarrow>
                                    if t = 0 then None
                                    else Some (Re (mag ?g (J_dir td dirn) energies
                                                     (snd (eigh (field_hamiltonian td ham0 dirn ?g B'))) t))))
                              T_array))"
    proof -
      obtain es V where ev: "eigh (field_hamiltonian td ham0 dirn ?g B') = (es, V)"
        by (cases "eigh (field_hamiltonian td ham0 dirn ?g B')")
      show ?thesis by (simp add: mag_B_def ph ev split: sum.splits option.splits)
    qed
  qed
  have ma: "magnetization td eigh ham0 dirn B_min B_max B_steps T_min T_max T_steps
        = (case geomspace T_min T_max T_steps of
             Inl e \<Rightarrow> Inl e
           | Inr T_array \<Rightarrow>
          (case linspace B_min B_max B_steps of
             Inl e \<Rightarrow> Inl e
           | Inr B_array \<Rightarrow>
               mag_rows
                 (\<lambda>B'. case shift_energies (fst (eigh (field_hamiltonian td ham0 dirn ?g B'))) of
                          Inl e \<Rightarrow> Inl e
                        | Inr energies \<Rightarrow>
                            Inr (map (\<lambda>T. (B', T,
                                       case T of
                                         None \<Rightarrow> None
                                       | Some t \<Rightarrow>
                                           if t = 0 then None
                                           else Some (Re (mag ?g (J_dir td dirn) energies
                                                            (snd (eigh (field_hamiltonian td ham0 dirn ?g B'))) t))))
                                     T_array))
                 B_array))"
  proof (cases "geomspace T_min T_max T_steps")
    case (Inl e)
    then show ?thesis by (simp add: magnetization_def g)
  next
    case T: (Inr T_array)
    show ?thesis
    proof (cases "linspace B_min B_max B_steps")
      case (Inl e)
      then show ?thesis by (simp add: magnetization_def g T)
    next
      case (Inr B_array)
      show ?thesis unfolding magnetization_def g T Inr fo by (simp add: mb)
    qed
  qed
  from g unit fo ph[of B] su ma show ?thesis by (intro conjI)
qed


theorem perturbed_hamiltonian_formula_witness:
  "0 < J example_spin_half \<and> length [0, 0, 1 :: real] = 3 \<and> LA_norm [0, 0, 1] \<noteq> 0
   \<and> is_square (length (Jz_op example_spin_half)) example_ham
   \<and> gJLS example_spin_half = Inr (lande_factor example_spin_half)
   \<and> lande_factor example_spin_half = 2
   \<and> (\<Sum>x\<leftarrow>normalized [0, 0, 1]. x\<^sup>2) = 1
   \<and> field_operator example_spin_half [0, 0, 1] = Inr (Some (J_dir example_spin_half [0, 0, 1]))
   \<and> perturbed_ham (lande_factor example_spin_half) example_ham (J_dir example_spin_half [0, 0, 1]) (1/10000)
       = Inr (field_hamiltonian example_spin_half example_ham [0, 0, 1] (lande_factor example_spin_half) (1/10000))
   \<and> susceptibility example_spin_half example_eigh example_ham [0, 0, 1] (1/10000) 1 300 2
       = Inr [(1, Some (Re (mag (lande_factor example_spin_half) (J_dir example_spin_half [0, 0, 1])
                              [0, 1] [[1, 0], [0, 1]] 1 / complex_of_real (1/10000)))),
              (300, Some (Re (mag (lande_factor example_spin_half) (J_dir example_spin_half [0, 0, 1])
                                [0, 1] [[1, 0], [0, 1]] 300 / complex_of_real (1/10000))))]
   \<and> magnetization example_spin_half example_eigh example_ham [0, 0, 1] (1/10000) (1/10000) 1 1 300 2
       = Inr [[(1/10000, Some 1, Some (Re (mag (lande_factor example_spin_half) (J_dir example_spin_half [0, 0, 1])
                                             [0, 1] [[1, 0], [0, 1]] 1))),
               (1/10000, Some 300, Some (Re (mag (lande_factor example_spin_half) (J_dir example_spin_half [0, 0, 1])
                                               [0, 1] [[1, 0], [0, 1]] 300)))]]"
proof -
  have h1: "0 < J example_spin_half" by (simp add: example_spin_half_def)
  have h2: "length [0, 0, 1 :: real] = 3" by simp
  have h3: "LA_norm [0, 0, 1] \<noteq> 0" by (simp add: LA_norm_def)
  have g2: "lande_factor example_spin_half = 2"
    by (simp add: lande_factor_def example_spin_half_def)
  have sh: "shift_energies [0, 1] = Inr [0, 1]" by (simp add: shift_energies_def)
  note t = perturbed_hamiltonian_formula [OF h1 h2 h3 example_ham_square,
      where eigh = example_eigh and B = "1/10000" and T_min = 1 and T_max = 300 and T_steps = 2
        and B_min = "1/10000" and B_max = "1/10000" and B_steps = 1]
  have t1: "gJLS example_spin_half = Inr (lande_factor example_spin_half)" using t by blast
  have t2: "(\<Sum>x\<leftarrow>normalized [0, 0, 1]. x\<^sup>2) = 1" using t by blast
  have t3: "field_operator example_spin_half [0, 0, 1] = Inr (Some (J_dir example_spin_half [0, 0, 1]))"
    using t by blast
  have t4: "perturbed_ham (lande_factor example_spin_half) example_ham (J_dir example_spin_half [0, 0, 1]) (1/10000)
       = Inr (field_hamiltonian example_spin_half example_ham [0, 0, 1] (lande_factor example_spin_half) (1/10000))"
    using t by blast
  have t5: "susceptibility example_spin_half example_eigh example_ham [0, 0, 1] (1/10000) 1 300 2
       = Inr [(1, Some (Re (mag (lande_factor example_spin_half) (J_dir example_spin_half [0, 0, 1])
                              [0, 1] [[1, 0], [0, 1]] 1 / complex_of_real (1/10000)))),
              (300, Some (Re (mag (lande_factor example_spin_half) (J_dir example_spin_half [0, 0, 1])
                                [0, 1] [[1, 0], [0, 1]] 300 / complex_of_real (1/10000))))]"
    using t by (simp add: example_linspace_T example_eigh_def sh)
  have t6: "magnetization example_spin_half example_eigh example_ham [0, 0, 1] (1/10000) (1/10000) 1 1 300 2
       = Inr [[(1/10000, Some 1, Some (Re (mag (lande_factor example_spin_half) (J_dir example_spin_half [0, 0, 1])
                                             [0, 1] [[1, 0], [0, 1]] 1))),
               (1/10000, Some 300, Some (Re (mag (lande_factor example_spin_half) (J_dir example_spin_half [0, 0, 1])
                                               [0, 1] [[1, 0], [0, 1]] 300)))]]"
    using t by (simp add: example_linspace_B example_geomspace example_eigh_def sh)
  from h1 h2 h3 example_ham_square t1 g2 t2 t3 t4 t5 t6 show ?thesis by (intro conjI)
qed

end
